theory Spec2Isabelle
  imports Complex_Main "HOL-Library.AList"
begin

text \<open>
  A model of the bingo server: the cards and the win evaluator as functions, the rooms,
  sockets, player records and interval timers as one state, and the handlers of the
  room messages and the timer callbacks as functions from a state to the next state and
  the messages sent. The definitions follow \<^verbatim>\<open>top.js\<close>; the theorems follow them.
\<close>

section \<open>Cards\<close>

text \<open>
  An entry of \<^verbatim>\<open>card.data\<close> is what \<^verbatim>\<open>formatCardForClient\<close> distinguishes: a number, the
  string \<^verbatim>\<open>"FREE"\<close>, \<^verbatim>\<open>null\<close> or \<^verbatim>\<open>undefined\<close>. The deck holds whole numbers between 0 and
  75, so \<^verbatim>\<open>Number(n)\<close> is the identity on them and they are modelled as \<open>int\<close>.
\<close>

datatype cell = Num int | FREE | Null | Undefined

type_synonym phone = string
type_synonym room_id = string
type_synonym ws_id = nat

text \<open>
  A card of a room, \<^verbatim>\<open>{ id, data, takenBy }\<close>. The holder \<^verbatim>\<open>takenBy\<close> is \<^verbatim>\<open>null\<close>
  (\<open>None\<close>) or the phone string of a player.
\<close>

record card =
  card_id :: int
  data :: "cell list"
  takenBy :: "phone option"

text \<open>The shape sent to clients and kept in \<^verbatim>\<open>ws.cards\<close>: \<^verbatim>\<open>{ B, I, N, G, O }\<close>.\<close>

record fcard =
  col_B :: "int list"
  col_I :: "int list"
  col_N :: "int list"
  col_G :: "int list"
  col_O :: "int list"

datatype letter = LB | LI | LN | LG | LO

text \<open>\<^verbatim>\<open>card[l]\<close> for a letter \<open>l\<close> of \<^verbatim>\<open>BINGO\<close>.\<close>

fun col :: "letter \<Rightarrow> fcard \<Rightarrow> int list" where
  "col LB c = col_B c"
| "col LI c = col_I c"
| "col LN c = col_N c"
| "col LG c = col_G c"
| "col LO c = col_O c"

definition BINGO :: "letter list" where
  "BINGO = [LB, LI, LN, LG, LO]"

text \<open>\<^verbatim>\<open>arr.slice(a, b)\<close> for \<open>0 \<le> a \<le> b\<close>: it stops at the end of a short array.\<close>

definition slice :: "nat \<Rightarrow> nat \<Rightarrow> 'a list \<Rightarrow> 'a list" where
  "slice a b xs = take (b - a) (drop a xs)"

definition sliceToNums :: "cell list \<Rightarrow> int list" where
  "sliceToNums arr = map (\<lambda>n. case n of Num k \<Rightarrow> k | _ \<Rightarrow> 0) arr"

definition formatCardForClient :: "card \<Rightarrow> fcard" where
  "formatCardForClient c =
     \<lparr> col_B = sliceToNums (slice 0 5 (data c)),
       col_I = sliceToNums (slice 5 10 (data c)),
       col_N = sliceToNums (slice 10 15 (data c)),
       col_G = sliceToNums (slice 15 20 (data c)),
       col_O = sliceToNums (slice 20 25 (data c)) \<rparr>"

section \<open>The win evaluator\<close>

text \<open>
  \<^verbatim>\<open>xs[i]\<close> is \<^verbatim>\<open>undefined\<close> beyond the end of the array; \<open>None\<close> stands for it. A
  line is a list of such reads.
\<close>

definition jsnth :: "'a list \<Rightarrow> nat \<Rightarrow> 'a option" where
  "jsnth xs i = (if i < length xs then Some (xs ! i) else None)"

text \<open>
  \<^verbatim>\<open>num === 0 || numbersCalled.includes(num)\<close>. The called numbers are numbers, so
  \<^verbatim>\<open>undefined\<close> is never among them.
\<close>

definition isMarked :: "int list \<Rightarrow> int option \<Rightarrow> bool" where
  "isMarked numbersCalled n =
     (case n of None \<Rightarrow> False | Some num \<Rightarrow> num = 0 \<or> List.member numbersCalled num)"

definition isLineMarked :: "int list \<Rightarrow> int option list \<Rightarrow> bool" where
  "isLineMarked numbersCalled line = list_all (isMarked numbersCalled) line"

definition colNums :: "fcard \<Rightarrow> letter \<Rightarrow> int option list" where
  "colNums c l = map Some (col l c)"

definition rowNums :: "fcard \<Rightarrow> nat \<Rightarrow> int option list" where
  "rowNums c row = map (\<lambda>l. jsnth (col l c) row) BINGO"

definition diag1 :: "fcard \<Rightarrow> int option list" where
  "diag1 c = map (\<lambda>(i, l). jsnth (col l c) i) (enumerate 0 BINGO)"

definition diag2 :: "fcard \<Rightarrow> int option list" where
  "diag2 c = map (\<lambda>(i, l). jsnth (col (BINGO ! (4 - i)) c) i) (enumerate 0 BINGO)"

definition checkBingo :: "fcard \<Rightarrow> int list \<Rightarrow> bool" where
  "checkBingo c numbersCalled =
     (if list_ex (\<lambda>l. isLineMarked numbersCalled (colNums c l)) BINGO then True
      else if list_ex (\<lambda>row. isLineMarked numbersCalled (rowNums c row)) [0..<5] then True
      else if isLineMarked numbersCalled (diag1 c) \<or> isLineMarked numbersCalled (diag2 c)
        then True
      else False)"

text \<open>The pattern is a list of \<^verbatim>\<open>[row, col]\<close> pairs, or \<^verbatim>\<open>null\<close> (\<open>None\<close>).\<close>

definition extractWinningPattern :: "fcard \<Rightarrow> int list \<Rightarrow> (nat \<times> nat) list option" where
  "extractWinningPattern c numbersCalled =
     (case find (\<lambda>k. isLineMarked numbersCalled (colNums c (BINGO ! k))) [0..<5] of
        Some k \<Rightarrow> Some (map (\<lambda>r. (r, k)) [0..<length (col (BINGO ! k) c)])
      | None \<Rightarrow>
     (case find (\<lambda>r. isLineMarked numbersCalled (rowNums c r)) [0..<5] of
        Some r \<Rightarrow> Some (map (\<lambda>k. (r, k)) [0..<5])
      | None \<Rightarrow>
        if isLineMarked numbersCalled (diag1 c) then Some (map (\<lambda>i. (i, i)) [0..<5])
        else if isLineMarked numbersCalled (diag2 c) then Some (map (\<lambda>i. (i, 4 - i)) [0..<5])
        else None))"

section \<open>Rooms, sessions and the process state\<close>

text \<open>
  An element of \<^verbatim>\<open>ws.cards\<close> is a formatted card (pushed by \<^verbatim>\<open>select_card\<close>, assigned by
  \<^verbatim>\<open>start_game\<close> and \<^verbatim>\<open>startRoomCountdown\<close>), or, after \<^verbatim>\<open>join_room\<close> restored the cards
  of a returning player, a reference to a card object of the room, which has no
  \<^verbatim>\<open>B\<close> .. \<^verbatim>\<open>O\<close> properties. Only \<^verbatim>\<open>claim_bingo\<close> ever reads such a reference, and a
  reference is modelled by the card's id.
\<close>

datatype scard = Formatted fcard | RawCard int

text \<open>
  A socket object \<^verbatim>\<open>ws\<close>: \<^verbatim>\<open>ws.phone\<close> (\<open>None\<close> while \<^verbatim>\<open>undefined\<close>), \<^verbatim>\<open>ws.cards\<close>
  (every reader treats \<^verbatim>\<open>undefined\<close> as the empty array) and whether
  \<^verbatim>\<open>ws.readyState === WebSocket.OPEN\<close>.
\<close>

record session =
  ws_phone :: "phone option"
  ws_cards :: "scard list"
  ws_open :: bool

text \<open>
  A room of \<^verbatim>\<open>rooms\<close>. \<^verbatim>\<open>players\<close> holds socket objects, here their addresses in the
  store. \<^verbatim>\<open>gameInterval\<close> and \<^verbatim>\<open>countdown\<close> hold timer handles; \<^verbatim>\<open>room.countdown\<close> is
  \<^verbatim>\<open>null\<close> when \<open>None\<close>. \<^verbatim>\<open>playerCards\<close> maps a phone to card objects, here their ids.
\<close>

record room =
  players :: "ws_id list"
  cards :: "card list"
  gameStarted :: bool
  numbersCalled :: "int list"
  cost :: int
  jackpot :: int
  gameInterval :: "nat option"
  countdown :: "nat option"
  countdownTime :: int
  currentCountdown :: int
  playerCards :: "phone \<rightharpoonup> int list"

record user =
  u_phone :: phone
  username :: string
  balance :: int
  wins :: int
  gamesPlayed :: int

text \<open>
  A live interval timer with the variables its callback closes over: the countdown
  of a room with \<^verbatim>\<open>countdownTime\<close>, or the number caller of a room with
  \<^verbatim>\<open>availableNumbers\<close>.
\<close>

datatype timer = CountdownTimer room_id int | GameTimer room_id "int list"

text \<open>
  The process state: \<^verbatim>\<open>rooms\<close> in insertion order, the store of socket objects,
  the connected sockets (\<^verbatim>\<open>allClients\<close>, which is \<^verbatim>\<open>wss.clients\<close> as well),
  \<^verbatim>\<open>db.data.players\<close>, and the live timers by handle. Every handler runs to its end
  before the next event: \<^verbatim>\<open>await db.read()\<close> and \<^verbatim>\<open>await db.write()\<close> are taken as
  immediate, and the file always holds \<^verbatim>\<open>db.data\<close>.
\<close>

record state =
  rooms :: "(room_id \<times> room) list"
  sockets :: "ws_id \<Rightarrow> session"
  allClients :: "ws_id list"
  next_ws :: ws_id
  db_players :: "user list"
  timers :: "nat \<rightharpoonup> timer"
  next_timer :: nat

text \<open>The status of a room: players, jackpot, cost, gameStarted, calledNumbersCount.\<close>

type_synonym room_status = "nat \<times> int \<times> int \<times> bool \<times> nat"

datatype msg =
    RoomJoined room_id phone "(int \<times> phone option) list"
  | CardRejected string
  | CardSelected room_id int phone
  | CardTaken room_id int phone
  | RoomStatusUpdate "(room_id \<times> room_status) list"
  | InvalidBingo
  | BingoWin phone fcard "(nat \<times> nat) list option"
  | GameEnd
  | ErrorMsg string
  | BalanceUpdate int
  | ShowCards string room_id "scard list"
  | Countdown room_id int
  | RoomCountdown room_id int
  | NumberCalled int "int list"

text \<open>One call of \<^verbatim>\<open>send\<close>: the socket and the message.\<close>

type_synonym out = "ws_id \<times> msg"

datatype error = TypeError

text \<open>A holder is truthy when it is a non-empty string.\<close>

definition truthy :: "phone option \<Rightarrow> bool" where
  "truthy h = (case h of None \<Rightarrow> False | Some p \<Rightarrow> p \<noteq> [])"

text \<open>\<^verbatim>\<open>xs.find(P)\<close> followed by a mutation of the object found.\<close>

fun update_first :: "('a \<Rightarrow> bool) \<Rightarrow> ('a \<Rightarrow> 'a) \<Rightarrow> 'a list \<Rightarrow> 'a list" where
  "update_first P f [] = []"
| "update_first P f (x # xs) = (if P x then f x # xs else x # update_first P f xs)"

definition setRoom :: "room_id \<Rightarrow> room \<Rightarrow> state \<Rightarrow> state" where
  "setRoom roomId r s = s\<lparr>rooms := AList.update roomId r (rooms s)\<rparr>"

definition clearInterval :: "nat option \<Rightarrow> state \<Rightarrow> state" where
  "clearInterval h s = (case h of None \<Rightarrow> s | Some k \<Rightarrow> s\<lparr>timers := (timers s)(k := None)\<rparr>)"

definition isOpen :: "state \<Rightarrow> ws_id \<Rightarrow> bool" where
  "isOpen s p = ws_open (sockets s p)"

definition resetCards :: "card list \<Rightarrow> card list" where
  "resetCards cs = map (\<lambda>c. c\<lparr>takenBy := None\<rparr>) cs"

section \<open>Utilities and broadcast helpers\<close>

text \<open>
  \<^verbatim>\<open>Math.floor(room.players.length * room.cost * 0.9)\<close>, in exact arithmetic. For a
  whole cost the double product rounds to the same floor.
\<close>

definition calcJackpot :: "room \<Rightarrow> int" where
  "calcJackpot r = \<lfloor>of_nat (length (players r)) * of_int (cost r) * (0.9 :: rat)\<rfloor>"

definition roomStatus :: "room \<Rightarrow> room_status" where
  "roomStatus r =
     (length (players r), calcJackpot r, cost r, gameStarted r, length (numbersCalled r))"

definition updateRoomStatus :: "state \<Rightarrow> out list" where
  "updateRoomStatus s =
     map (\<lambda>client. (client, RoomStatusUpdate (map (\<lambda>(roomId, r). (roomId, roomStatus r)) (rooms s))))
       (filter (isOpen s) (allClients s))"

definition broadcastToRoom :: "room_id \<Rightarrow> msg \<Rightarrow> state \<Rightarrow> out list" where
  "broadcastToRoom roomId message s =
     (case map_of (rooms s) roomId of
        None \<Rightarrow> []
      | Some r \<Rightarrow> map (\<lambda>ws. (ws, message)) (filter (isOpen s) (players r)))"

definition broadcastToAll :: "msg \<Rightarrow> state \<Rightarrow> out list" where
  "broadcastToAll message s = map (\<lambda>ws. (ws, message)) (filter (isOpen s) (allClients s))"

section \<open>The game loop\<close>

text \<open>
  \<^verbatim>\<open>startGame\<close>: the new interval gets a fresh handle, and its callback closes over
  \<^verbatim>\<open>availableNumbers\<close>, the numbers 1 to 75.
\<close>

definition startGame :: "room_id \<Rightarrow> state \<Rightarrow> state" where
  "startGame roomId s =
     (case map_of (rooms s) roomId of
        None \<Rightarrow> s
      | Some r \<Rightarrow>
          if gameStarted r then s
          else
            let h = next_timer s;
                s1 = s\<lparr>timers := (timers s)(h \<mapsto> GameTimer roomId [1..75]), next_timer := Suc h\<rparr>
            in setRoom roomId (r\<lparr>gameStarted := True, numbersCalled := [], gameInterval := Some h\<rparr>) s1)"

text \<open>
  One run of the callback of the game interval with handle \<open>h\<close>. \<open>rnd\<close> stands for
  \<^verbatim>\<open>Math.random()\<close>: \<^verbatim>\<open>Math.floor(Math.random() * availableNumbers.length)\<close> is any
  index of the array, here \<open>rnd mod length availableNumbers\<close>. The end of the game is
  sent to every player without a look at \<^verbatim>\<open>readyState\<close>.
\<close>

definition gameTick :: "nat \<Rightarrow> room_id \<Rightarrow> int list \<Rightarrow> nat \<Rightarrow> state \<Rightarrow> state \<times> out list" where
  "gameTick h roomId availableNumbers rnd s =
     (case map_of (rooms s) roomId of
        None \<Rightarrow> (s, [])
      | Some r \<Rightarrow>
          if availableNumbers = [] \<or> players r = [] then
            let s1 = clearInterval (gameInterval r) s;
                r1 = r\<lparr>gameStarted := False, cards := resetCards (cards r)\<rparr>
            in (setRoom roomId r1 s1, map (\<lambda>p. (p, GameEnd)) (players r))
          else
            let i = rnd mod length availableNumbers;
                num = availableNumbers ! i;
                rest = take i availableNumbers @ drop (Suc i) availableNumbers;
                called = numbersCalled r @ [num];
                s1 = s\<lparr>timers := (timers s)(h \<mapsto> GameTimer roomId rest)\<rparr>
            in (setRoom roomId (r\<lparr>numbersCalled := called\<rparr>) s1,
                map (\<lambda>p. (p, NumberCalled num called)) (filter (isOpen s) (players r))))"

text \<open>
  The review phase of \<^verbatim>\<open>startRoomCountdown\<close>: every socket of the room, in order, gets
  the cards held under its phone. \<^verbatim>\<open>c.takenBy === ws.phone\<close> is false for a
  \<^verbatim>\<open>null\<close> holder, also when \<^verbatim>\<open>ws.phone\<close> is \<^verbatim>\<open>undefined\<close>.
\<close>

fun sendReview :: "room_id \<Rightarrow> card list \<Rightarrow> ws_id list \<Rightarrow> state \<Rightarrow> state \<times> out list" where
  "sendReview roomId cs [] s = (s, [])"
| "sendReview roomId cs (ws # rest) s =
     (let assignedCards = filter (\<lambda>c. takenBy c \<noteq> None \<and> takenBy c = ws_phone (sockets s ws)) cs;
          wcards = map (\<lambda>c. Formatted (formatCardForClient c)) assignedCards;
          s1 = s\<lparr>sockets := (sockets s)(ws := (sockets s ws)\<lparr>ws_cards := wcards\<rparr>)\<rparr>;
          (s2, out) = sendReview roomId cs rest s1
      in (s2, (ws, ShowCards ''review'' roomId wcards) # out))"

text \<open>\<^verbatim>\<open>a || b\<close> on numbers: 0 is falsy.\<close>

definition orElse :: "int \<Rightarrow> int \<Rightarrow> int" where
  "orElse a b = (if a = 0 then b else a)"

text \<open>
  \<^verbatim>\<open>startRoomCountdown\<close>: nothing happens when \<^verbatim>\<open>room.countdown\<close> is set; otherwise a
  new interval closes over \<^verbatim>\<open>countdownTime = room.currentCountdown || 60\<close>.
\<close>

definition startRoomCountdown :: "room_id \<Rightarrow> state \<Rightarrow> state \<times> out list" where
  "startRoomCountdown roomId s =
     (case map_of (rooms s) roomId of
        None \<Rightarrow> (s, [])
      | Some r \<Rightarrow>
          if countdown r \<noteq> None then (s, [])
          else
            let t = orElse (currentCountdown r) 60;
                h = next_timer s;
                s1 = s\<lparr>timers := (timers s)(h \<mapsto> CountdownTimer roomId t), next_timer := Suc h\<rparr>;
                s2 = setRoom roomId (r\<lparr>countdown := Some h\<rparr>) s1
            in sendReview roomId (cards r) (players r) s2)"

text \<open>
  One run of the callback of the countdown interval with handle \<open>h\<close>, whose
  \<^verbatim>\<open>countdownTime\<close> is \<open>t\<close> when the callback starts.
\<close>

definition countdownTick :: "nat \<Rightarrow> room_id \<Rightarrow> int \<Rightarrow> state \<Rightarrow> state \<times> out list" where
  "countdownTick h roomId t s =
     (case map_of (rooms s) roomId of
        None \<Rightarrow> (s, [])
      | Some r \<Rightarrow>
          let out1 = broadcastToRoom roomId (Countdown roomId t) s;
              out2 = broadcastToAll (RoomCountdown roomId t) s;
              s1 = s\<lparr>timers := (timers s)(h \<mapsto> CountdownTimer roomId (t - 1))\<rparr>
          in
            if t - 1 < 0 then
              let s2 = clearInterval (countdown r) s1;
                  out3 = broadcastToAll (RoomCountdown roomId 0) s2;
                  s3 = setRoom roomId
                         (r\<lparr>countdown := None, currentCountdown := 60,
                            cards := resetCards (cards r)\<rparr>) s2
              in (startGame roomId s3, out1 @ out2 @ out3)
            else (setRoom roomId (r\<lparr>currentCountdown := t\<rparr>) s1, out1 @ out2))"

section \<open>The message handlers\<close>

text \<open>A message for a room id that is not in \<^verbatim>\<open>rooms\<close> is dropped without an answer.\<close>

definition join_room :: "ws_id \<Rightarrow> room_id \<Rightarrow> phone \<Rightarrow> state \<Rightarrow> state \<times> out list" where
  "join_room ws roomId ph s =
     (case map_of (rooms s) roomId of
        None \<Rightarrow> (s, [])
      | Some r \<Rightarrow>
          let previousCards = filter (\<lambda>c. takenBy c = Some ph) (cards r);
              sess = (sockets s ws)\<lparr>ws_phone := Some ph,
                                    ws_cards := map (\<lambda>c. RawCard (card_id c)) previousCards\<rparr>;
              s1 = setRoom roomId (r\<lparr>players := players r @ [ws]\<rparr>)
                     (s\<lparr>sockets := (sockets s)(ws := sess)\<rparr>)
          in (s1, [(ws, RoomJoined roomId ph
                     (map (\<lambda>c. (card_id c, if truthy (takenBy c) then takenBy c else None))
                        (cards r)))]))"

definition select_card :: "ws_id \<Rightarrow> room_id \<Rightarrow> int \<Rightarrow> phone \<Rightarrow> state \<Rightarrow> state \<times> out list" where
  "select_card ws roomId cardId ph s =
     (case map_of (rooms s) roomId of
        None \<Rightarrow> (s, [])
      | Some r \<Rightarrow>
         (case find (\<lambda>c. card_id c = cardId) (cards r) of
            None \<Rightarrow> (s, [(ws, CardRejected ''Card not found'')])
          | Some c \<Rightarrow>
              if truthy (takenBy c) \<and> takenBy c \<noteq> Some ph
                then (s, [(ws, CardRejected ''Already taken'')])
              else if length (filter (\<lambda>c. takenBy c = Some ph) (cards r)) \<ge> 4
                then (s, [(ws, CardRejected ''Max 4 cards reached'')])
              else
                let cards1 = update_first (\<lambda>c. card_id c = cardId) (\<lambda>c. c\<lparr>takenBy := Some ph\<rparr>) (cards r);
                    formatted = formatCardForClient (c\<lparr>takenBy := Some ph\<rparr>);
                    sess = (sockets s ws)\<lparr>ws_cards := ws_cards (sockets s ws) @ [Formatted formatted]\<rparr>;
                    pc = (case playerCards r ph of None \<Rightarrow> [] | Some l \<Rightarrow> l) @ [card_id c];
                    r1 = r\<lparr>cards := cards1, playerCards := (playerCards r)(ph \<mapsto> pc)\<rparr>;
                    s1 = setRoom roomId r1 (s\<lparr>sockets := (sockets s)(ws := sess)\<rparr>)
                in (s1, (ws, CardSelected roomId (card_id c) ph)
                        # map (\<lambda>p. (p, CardTaken roomId (card_id c) ph)) (filter (isOpen s1) (players r1))
                        @ updateRoomStatus s1)))"

text \<open>
  The winner search of \<^verbatim>\<open>claim_bingo\<close>: the first card of \<^verbatim>\<open>player.cards\<close> that passes
  \<^verbatim>\<open>checkBingo\<close>, with its pattern. On a card reference \<^verbatim>\<open>card["B"]\<close> is \<^verbatim>\<open>undefined\<close> and
  \<^verbatim>\<open>line.every\<close> throws.
\<close>

fun findWinning :: "scard list \<Rightarrow> int list \<Rightarrow> error + (fcard \<times> (nat \<times> nat) list option) option" where
  "findWinning [] called = Inr None"
| "findWinning (RawCard i # rest) called = Inl TypeError"
| "findWinning (Formatted c # rest) called =
     (if checkBingo c called then Inr (Some (c, extractWinningPattern c called))
      else findWinning rest called)"

definition claim_bingo :: "ws_id \<Rightarrow> room_id \<Rightarrow> phone \<Rightarrow> state \<Rightarrow> error + (state \<times> out list)" where
  "claim_bingo ws roomId playerPhone s =
     (case map_of (rooms s) roomId of
        None \<Rightarrow> Inr (s, [])
      | Some r \<Rightarrow>
         (case find (\<lambda>p. ws_phone (sockets s p) = Some playerPhone) (players r) of
            None \<Rightarrow> Inr (s, [(ws, InvalidBingo)])
          | Some player \<Rightarrow>
              if ws_cards (sockets s player) = [] then Inr (s, [(ws, InvalidBingo)])
              else
               (case findWinning (ws_cards (sockets s player)) (numbersCalled r) of
                  Inl e \<Rightarrow> Inl e
                | Inr None \<Rightarrow> Inr (s, [(ws, InvalidBingo)])
                | Inr (Some (winningCard, winningPattern)) \<Rightarrow>
                    let jp = calcJackpot r;
                        db1 = update_first (\<lambda>u. u_phone u = playerPhone)
                                (\<lambda>u. u\<lparr>balance := balance u + jp, wins := wins u + 1\<rparr>) (db_players s);
                        out1 = concat (map (\<lambda>p. [(p, BingoWin playerPhone winningCard winningPattern),
                                                   (p, GameEnd)])
                                 (filter (isOpen s) (players r)));
                        s1 = clearInterval (gameInterval r) (s\<lparr>db_players := db1\<rparr>);
                        s2 = setRoom roomId (r\<lparr>gameStarted := False, numbersCalled := []\<rparr>) s1
                    in Inr (s2, out1 @ updateRoomStatus s2))))"

text \<open>
  \<^verbatim>\<open>start_game\<close>. A phone with no record in \<^verbatim>\<open>db.data.players\<close> is not charged and goes
  on. \<open>start_game_rest\<close> is the part after the balance check.
\<close>

definition start_game_rest :: "ws_id \<Rightarrow> room_id \<Rightarrow> phone \<Rightarrow> room \<Rightarrow> state \<Rightarrow> state \<times> out list" where
  "start_game_rest ws roomId ph r s =
     (let pcards = filter (\<lambda>c. takenBy c = Some ph) (cards r);
          wcards = map (\<lambda>c. Formatted (formatCardForClient c)) pcards;
          r1 = r\<lparr>playerCards := (playerCards r)(ph \<mapsto> map card_id pcards)\<rparr>;
          s1 = setRoom roomId r1 (s\<lparr>sockets := (sockets s)(ws := (sockets s ws)\<lparr>ws_cards := wcards\<rparr>)\<rparr>);
          out1 = [(ws, ShowCards ''game'' roomId wcards)]
      in if \<not> gameStarted r1 \<and> countdown r1 = None
         then (let (s2, out2) = startRoomCountdown roomId s1 in (s2, out1 @ out2))
         else (s1, out1))"

definition start_game :: "ws_id \<Rightarrow> room_id \<Rightarrow> phone \<Rightarrow> state \<Rightarrow> state \<times> out list" where
  "start_game ws roomId ph s =
     (case map_of (rooms s) roomId of
        None \<Rightarrow> (s, [])
      | Some r \<Rightarrow>
          if filter (\<lambda>c. takenBy c = Some ph) (cards r) = []
            then (s, [(ws, ErrorMsg ''No cards selected'')])
          else
           (case find (\<lambda>u. u_phone u = ph) (db_players s) of
              None \<Rightarrow> start_game_rest ws roomId ph r s
            | Some u \<Rightarrow>
                if balance u \<ge> cost r then
                  let db1 = update_first (\<lambda>u. u_phone u = ph)
                              (\<lambda>u. u\<lparr>balance := balance u - cost r\<rparr>) (db_players s);
                      (s2, out2) = start_game_rest ws roomId ph r (s\<lparr>db_players := db1\<rparr>)
                  in (s2, (ws, BalanceUpdate (balance u - cost r)) # out2)
                else (s, [(ws, ErrorMsg ''Insufficient balance to start game'')])))"

section \<open>Events\<close>

text \<open>
  What the process reacts to: a new connection (its socket object is new), the close
  of a socket (the second close handler finds nothing in the map \<^verbatim>\<open>players\<close>, which
  nothing ever fills, so no room forgets a socket), the four room messages, and the
  run of a timer callback. A cleared timer never runs. The only handler of the model
  that can throw is \<^verbatim>\<open>claim_bingo\<close>, and it throws before it changes anything.
\<close>

datatype event =
    Connect
  | Close ws_id
  | JoinRoom ws_id room_id phone
  | SelectCard ws_id room_id int phone
  | ClaimBingo ws_id room_id phone
  | StartGame ws_id room_id phone
  | TimerFire nat nat

definition newSession :: session where
  "newSession = \<lparr>ws_phone = None, ws_cards = [], ws_open = True\<rparr>"

fun step :: "event \<Rightarrow> state \<Rightarrow> state \<times> out list" where
  "step Connect s =
     (s\<lparr>sockets := (sockets s)(next_ws s := newSession),
        allClients := allClients s @ [next_ws s], next_ws := Suc (next_ws s)\<rparr>, [])"
| "step (Close ws) s =
     (s\<lparr>sockets := (sockets s)(ws := (sockets s ws)\<lparr>ws_open := False\<rparr>),
        allClients := removeAll ws (allClients s)\<rparr>, [])"
| "step (JoinRoom ws roomId ph) s = join_room ws roomId ph s"
| "step (SelectCard ws roomId cardId ph) s = select_card ws roomId cardId ph s"
| "step (ClaimBingo ws roomId ph) s =
     (case claim_bingo ws roomId ph s of Inl e \<Rightarrow> (s, []) | Inr res \<Rightarrow> res)"
| "step (StartGame ws roomId ph) s = start_game ws roomId ph s"
| "step (TimerFire h rnd) s =
     (case timers s h of
        None \<Rightarrow> (s, [])
      | Some (CountdownTimer roomId t) \<Rightarrow> countdownTick h roomId t s
      | Some (GameTimer roomId availableNumbers) \<Rightarrow> gameTick h roomId availableNumbers rnd s)"

fun run :: "event list \<Rightarrow> state \<Rightarrow> state" where
  "run [] s = s"
| "run (e # es) s = run es (fst (step e s))"

section \<open>The state at the start of the server\<close>

text \<open>
  \<^verbatim>\<open>loadRooms\<close> on an entry \<^verbatim>\<open>{ roomId, cost, jackpot: 0, numbersCalled: [], gameStarted: 0,
  currentCountdown: 60 }\<close> of \<^verbatim>\<open>initDB\<close>, with the deck \<^verbatim>\<open>fixedCardsSet\<close>.
\<close>

definition loadRoom :: "cell list list \<Rightarrow> int \<Rightarrow> room" where
  "loadRoom fixedCardsSet c =
     \<lparr> players = [],
       cards = map (\<lambda>(idx, d). \<lparr>card_id = int idx + 1, data = d, takenBy = None\<rparr>)
                 (enumerate 0 fixedCardsSet),
       gameStarted = False, numbersCalled = [], cost = c, jackpot = 0,
       gameInterval = None, countdown = None, countdownTime = 60, currentCountdown = 60,
       playerCards = Map.empty \<rparr>"

definition initState :: "cell list list \<Rightarrow> user list \<Rightarrow> state" where
  "initState fixedCardsSet dbPlayers =
     \<lparr> rooms = [(''room_10'', loadRoom fixedCardsSet 10), (''room_20'', loadRoom fixedCardsSet 20),
                 (''room_50'', loadRoom fixedCardsSet 50), (''room_100'', loadRoom fixedCardsSet 100)],
       sockets = (\<lambda>w. newSession), allClients = [], next_ws = 0,
       db_players = dbPlayers, timers = Map.empty, next_timer = 0 \<rparr>"


section \<open>The deck\<close>

text \<open>
  \<^verbatim>\<open>generateBingoCard\<close> of the deck generator. \<open>pick5\<close> is its inner loop for one
  column: it draws until the column has five different numbers. The list holds the
  values of \<^verbatim>\<open>Math.random()\<close> still to come, a draw \<open>d\<close> standing for the number
  \<open>d mod (max - min + 1) + min\<close>; the loop has no result when the list runs out first.
\<close>

fun pick5 :: "int \<Rightarrow> int \<Rightarrow> nat list \<Rightarrow> int list \<Rightarrow> (int list \<times> nat list) option" where
  "pick5 lo hi [] nums = (if length nums < 5 then None else Some (nums, []))"
| "pick5 lo hi (d # ds) nums =
     (if length nums < 5 then
        (let n = int (d mod nat (hi - lo + 1)) + lo
         in if List.member nums n then pick5 lo hi ds nums else pick5 lo hi ds (nums @ [n]))
      else Some (nums, d # ds))"

definition generateBingoCard :: "nat list \<Rightarrow> cell list option" where
  "generateBingoCard ds0 =
     (case pick5 1 15 ds0 [] of None \<Rightarrow> None | Some (b, ds1) \<Rightarrow>
      case pick5 16 30 ds1 [] of None \<Rightarrow> None | Some (i, ds2) \<Rightarrow>
      case pick5 31 45 ds2 [] of None \<Rightarrow> None | Some (n, ds3) \<Rightarrow>
      case pick5 46 60 ds3 [] of None \<Rightarrow> None | Some (g, ds4) \<Rightarrow>
      case pick5 61 75 ds4 [] of None \<Rightarrow> None | Some (o5, ds5) \<Rightarrow>
        Some ((map Num (b @ i @ n @ g @ o5))[12 := Num 0]))"

text \<open>
  What every card of the deck looks like once formatted: five columns of five
  numbers, B within 1..15, I within 16..30, N within 31..45, G within 46..60 and O
  within 61..75, but for the centre \<^verbatim>\<open>N[2]\<close>, which is 0.
\<close>

fun colRange :: "letter \<Rightarrow> int \<times> int" where
  "colRange LB = (1, 15)"
| "colRange LI = (16, 30)"
| "colRange LN = (31, 45)"
| "colRange LG = (46, 60)"
| "colRange LO = (61, 75)"

definition cellOK :: "fcard \<Rightarrow> letter \<Rightarrow> nat \<Rightarrow> bool" where
  "cellOK c l r =
     (if l = LN \<and> r = 2 then col l c ! r = 0
      else fst (colRange l) \<le> col l c ! r \<and> col l c ! r \<le> snd (colRange l))"

definition wf_card :: "fcard \<Rightarrow> bool" where
  "wf_card c = list_all (\<lambda>l. length (col l c) = 5 \<and> list_all (cellOK c l) [0..<5]) BINGO"

text \<open>The numbers of a column that are not the free cell.\<close>

definition nonFree :: "int list \<Rightarrow> int list" where
  "nonFree line = filter (\<lambda>n. n \<noteq> 0) line"

section \<open>Predicates on states\<close>

text \<open>The number of cards of a room held by a phone.\<close>

definition heldBy :: "phone \<Rightarrow> room \<Rightarrow> nat" where
  "heldBy ph r = length (filter (\<lambda>c. takenBy c = Some ph) (cards r))"



text \<open>A called-numbers sequence (followed by a draw pool) of one game.\<close>

definition numbersOK :: "int list \<Rightarrow> bool" where
  "numbersOK ns = (distinct ns \<and> list_all (\<lambda>n. 1 \<le> n \<and> n \<le> 75) ns)"

text \<open>
  The invariant of the number caller: every room's called numbers are different
  numbers of 1..75, and a live game interval is the one its room refers to, the
  room's game is started, and its draw pool holds different numbers of 1..75, none
  of them called.
\<close>

definition gameTimerOK :: "state \<Rightarrow> nat \<Rightarrow> bool" where
  "gameTimerOK s h =
     (case timers s h of
        Some (GameTimer roomId avail) \<Rightarrow>
          (case map_of (rooms s) roomId of
             None \<Rightarrow> False
           | Some r \<Rightarrow> gameInterval r = Some h \<and> gameStarted r \<and> numbersOK (numbersCalled r @ avail))
      | _ \<Rightarrow> True)"

definition roomNumbersOK :: "state \<Rightarrow> room_id \<Rightarrow> bool" where
  "roomNumbersOK s roomId =
     (case map_of (rooms s) roomId of None \<Rightarrow> True | Some r \<Rightarrow> numbersOK (numbersCalled r))"

definition gameInv :: "state \<Rightarrow> bool" where
  "gameInv s = ((\<forall>h. gameTimerOK s h) \<and> list_all (roomNumbersOK s) (map fst (rooms s)))"

text \<open>
  How the called numbers of a room may differ after one event: not at all, cleared, or
  one number longer, the last only for a room whose game is started.
\<close>

definition calledStep :: "room \<Rightarrow> room \<Rightarrow> bool" where
  "calledStep r r' =
     (numbersCalled r' = numbersCalled r \<or> numbersCalled r' = [] \<or>
      (gameStarted r \<and> (\<exists>n. numbersCalled r' = numbersCalled r @ [n])))"

text \<open>The state after a successful claim of phone \<open>ph\<close> in room \<open>r\<close>.\<close>

definition afterWin :: "room_id \<Rightarrow> phone \<Rightarrow> room \<Rightarrow> state \<Rightarrow> state" where
  "afterWin roomId ph r s =
     setRoom roomId (r\<lparr>gameStarted := False, numbersCalled := []\<rparr>)
       (clearInterval (gameInterval r)
          (s\<lparr>db_players := update_first (\<lambda>u. u_phone u = ph)
               (\<lambda>u. u\<lparr>balance := balance u + calcJackpot r, wins := wins u + 1\<rparr>) (db_players s)\<rparr>))"

section \<open>A small deck and some states of a game\<close>

definition exData1 :: "cell list" where
  "exData1 = map Num [1, 2, 3, 4, 5, 16, 17, 18, 19, 20, 31, 32, 0, 34, 35,
                      46, 47, 48, 49, 50, 61, 62, 63, 64, 65]"

definition exData2 :: "cell list" where
  "exData2 = map Num [6, 7, 8, 9, 10, 21, 22, 23, 24, 25, 36, 37, 0, 39, 40,
                      51, 52, 53, 54, 55, 66, 67, 68, 69, 70]"

definition exDeck :: "cell list list" where
  "exDeck = [exData1, exData2]"

definition exUsers :: "user list" where
  "exUsers =
     [\<lparr>u_phone = ''0911'', username = ''Player_0911'', balance = 1000, wins = 0, gamesPlayed = 0\<rparr>,
      \<lparr>u_phone = ''0922'', username = ''Player_0922'', balance = 1000, wins = 0, gamesPlayed = 0\<rparr>]"

definition exCard1 :: fcard where
  "exCard1 = formatCardForClient \<lparr>card_id = 1, data = exData1, takenBy = None\<rparr>"

definition exCard2 :: fcard where
  "exCard2 = formatCardForClient \<lparr>card_id = 2, data = exData2, takenBy = None\<rparr>"

definition exSockets :: "ws_id \<Rightarrow> session" where
  "exSockets =
     (\<lambda>w. newSession)
       (0 := \<lparr>ws_phone = Some ''0911'', ws_cards = [Formatted exCard1], ws_open = True\<rparr>,
        1 := \<lparr>ws_phone = Some ''0922'', ws_cards = [Formatted exCard2], ws_open = True\<rparr>)"

text \<open>
  Two players have joined \<^verbatim>\<open>room_10\<close> and each holds one card; nobody has asked for
  the start of the game yet.
\<close>

definition exSelectedRoom :: room where
  "exSelectedRoom =
     (loadRoom exDeck 10)
       \<lparr>players := [0, 1],
        cards := [\<lparr>card_id = 1, data = exData1, takenBy = Some ''0911''\<rparr>,
                  \<lparr>card_id = 2, data = exData2, takenBy = Some ''0922''\<rparr>]\<rparr>"

definition exSelected :: state where
  "exSelected =
     \<lparr> rooms = [(''room_10'', exSelectedRoom)],
       sockets = exSockets, allClients = [0, 1], next_ws = 2,
       db_players = exUsers, timers = Map.empty, next_timer = 0 \<rparr>"


text \<open>
  A game of \<^verbatim>\<open>room_10\<close> after ten draws: both players hold a card whose first column
  is called. The second player has selected card 2 again during the game.
\<close>

definition exGameRoom :: room where
  "exGameRoom =
     (loadRoom exDeck 10)
       \<lparr>players := [0, 1], gameStarted := True,
        numbersCalled := [1, 6, 2, 7, 3, 8, 4, 9, 5, 10], gameInterval := Some 1,
        cards := [\<lparr>card_id = 1, data = exData1, takenBy = None\<rparr>,
                  \<lparr>card_id = 2, data = exData2, takenBy = Some ''0922''\<rparr>]\<rparr>"

definition exGame :: state where
  "exGame =
     \<lparr> rooms = [(''room_10'', exGameRoom)],
       sockets = exSockets, allClients = [0, 1], next_ws = 2,
       db_players = exUsers, timers = [1 \<mapsto> GameTimer ''room_10'' [11..75]], next_timer = 2 \<rparr>"

text \<open>
  A whole game from the start of the server with the deck of two cards. Two players
  connect, join \<^verbatim>\<open>room_10\<close>, select a card each and ask for the start; the countdown with
  handle 0 runs from 60 to 0 and starts the game, whose number caller has handle 1.
\<close>

definition exOpening :: "event list" where
  "exOpening =
     [Connect, Connect, JoinRoom 0 ''room_10'' ''0911'', JoinRoom 1 ''room_10'' ''0922'',
      SelectCard 0 ''room_10'' 1 ''0911'', SelectCard 1 ''room_10'' 2 ''0922'',
      StartGame 0 ''room_10'' ''0911'', StartGame 1 ''room_10'' ''0922'']
     @ replicate 61 (TimerFire 0 0)"

text \<open>
  Then 1, 2, 3, 4 and 5 are drawn, the second player selects card 2 during the game,
  and the first player claims.
\<close>

definition exClaimed :: "event list" where
  "exClaimed =
     exOpening @ replicate 5 (TimerFire 1 0)
     @ [SelectCard 1 ''room_10'' 2 ''0922'', ClaimBingo 0 ''room_10'' ''0911'']"

text \<open>
  Or nobody claims: all 75 numbers are drawn, and the number caller runs once more.
\<close>

definition exExhausted :: "event list" where
  "exExhausted = exOpening @ replicate 76 (TimerFire 1 0)"



text \<open>
  The server right after its start with a deck of five cards, and a player who
  connects, joins \<^verbatim>\<open>room_10\<close> and asks for each of the five cards.
\<close>

definition exLobby :: state where
  "exLobby = initState (exDeck @ exDeck @ [exData1]) exUsers"

definition exFiveSelects :: "event list" where
  "exFiveSelects =
     [Connect, JoinRoom 0 ''room_10'' ''0911'',
      SelectCard 0 ''room_10'' 1 ''0911'', SelectCard 0 ''room_10'' 2 ''0911'',
      SelectCard 0 ''room_10'' 3 ''0911'', SelectCard 0 ''room_10'' 4 ''0911'',
      SelectCard 0 ''room_10'' 5 ''0911'']"

text \<open>The state \<open>exSelected\<close> when the first player's balance is 5.\<close>

definition exPoor :: state where
  "exPoor = exSelected\<lparr>db_players :=
     [\<lparr>u_phone = ''0911'', username = ''Player_0911'', balance = 5, wins = 0, gamesPlayed = 0\<rparr>]\<rparr>"


text \<open>
  Two states of which the second has no game interval that the first has not, and in
  which every room has the same interval handle, phase and called numbers.
\<close>

definition sameGame :: "room \<Rightarrow> room \<Rightarrow> bool" where
  "sameGame r r' =
     (gameInterval r' = gameInterval r \<and> gameStarted r' = gameStarted r \<and>
      numbersCalled r' = numbersCalled r)"

definition framed :: "state \<Rightarrow> state \<Rightarrow> bool" where
  "framed s s' =
     ((\<forall>k. rel_option sameGame (map_of (rooms s) k) (map_of (rooms s') k)) \<and>
      (\<forall>h roomId avail. timers s' h = Some (GameTimer roomId avail) \<longrightarrow>
         timers s h = Some (GameTimer roomId avail)))"

text \<open>Two runs of the number caller of \<open>exGame\<close>, which draw 11 and 17.\<close>

definition exTwoDraws :: "event list" where
  "exTwoDraws = [TimerFire 1 0, TimerFire 1 5]"

section \<open>Basic facts\<close>

lemma upt5: "[0..<5] = [0, 1, 2, 3, 4::nat]"
  by (simp add: upt_rec)

lemma map_of_setRoom:
  "map_of (rooms (setRoom roomId r s)) k = (if k = roomId then Some r else map_of (rooms s) k)"
  by (simp add: setRoom_def update_conv')

lemma setRoom_fields [simp]:
  "sockets (setRoom roomId r s) = sockets s"
  "allClients (setRoom roomId r s) = allClients s"
  "next_ws (setRoom roomId r s) = next_ws s"
  "db_players (setRoom roomId r s) = db_players s"
  "timers (setRoom roomId r s) = timers s"
  "next_timer (setRoom roomId r s) = next_timer s"
  by (simp_all add: setRoom_def)

lemma clearInterval_fields [simp]:
  "rooms (clearInterval h s) = rooms s"
  "sockets (clearInterval h s) = sockets s"
  "allClients (clearInterval h s) = allClients s"
  "next_ws (clearInterval h s) = next_ws s"
  "db_players (clearInterval h s) = db_players s"
  "next_timer (clearInterval h s) = next_timer s"
  by (simp_all add: clearInterval_def split: option.splits)

lemma timers_clearInterval:
  "timers (clearInterval h s) k = (if h = Some k then None else timers s k)"
  by (auto simp: clearInterval_def split: option.splits)

lemma updateRoomStatus_msgs:
  "(w, m) \<in> set (updateRoomStatus s) \<Longrightarrow> \<exists>st. m = RoomStatusUpdate st"
  by (auto simp: updateRoomStatus_def)

lemma find_update_first:
  "find P xs = Some x \<Longrightarrow> P (f x) \<Longrightarrow> find P (update_first P f xs) = Some (f x)"
  by (induction xs) (auto split: if_splits)


section \<open>What the handlers leave alone\<close>

lemma sendReview_frame:
  "rooms (fst (sendReview roomId cs ps s)) = rooms s \<and>
   timers (fst (sendReview roomId cs ps s)) = timers s \<and>
   next_timer (fst (sendReview roomId cs ps s)) = next_timer s \<and>
   db_players (fst (sendReview roomId cs ps s)) = db_players s \<and>
   allClients (fst (sendReview roomId cs ps s)) = allClients s"
  by (induction ps arbitrary: s) (simp_all add: Let_def case_prod_beta)

lemma startRoomCountdown_db [simp]:
  "db_players (fst (startRoomCountdown roomId s)) = db_players s"
  by (simp add: startRoomCountdown_def Let_def sendReview_frame split: option.splits)

lemma start_game_rest_db [simp]:
  "db_players (fst (start_game_rest ws roomId ph r s)) = db_players s"
  by (simp add: start_game_rest_def Let_def case_prod_beta)

section \<open>Cards of the deck and lines\<close>

lemma in_BINGO: "l \<in> set BINGO"
  by (cases l) (simp_all add: BINGO_def)

lemma wf_card_length: "wf_card c \<Longrightarrow> length (col l c) = 5"
  using in_BINGO[of l] by (auto simp: wf_card_def list_all_iff)

lemma wf_card_cell: "wf_card c \<Longrightarrow> r < 5 \<Longrightarrow> cellOK c l r"
  using in_BINGO[of l] by (auto simp: wf_card_def list_all_iff)

lemma colRange_disjoint:
  "l \<noteq> l' \<Longrightarrow> fst (colRange l) \<le> n \<Longrightarrow> n \<le> snd (colRange l) \<Longrightarrow>
     \<not> (fst (colRange l') \<le> n \<and> n \<le> snd (colRange l'))"
  by (cases l; cases l') simp_all

lemma colRange_pos: "fst (colRange l) \<le> n \<Longrightarrow> n \<noteq> 0"
  by (cases l) auto

lemma isLineMarked_iff:
  "isLineMarked ns line = (\<forall>v\<in>set line. \<exists>n. v = Some n \<and> (n = 0 \<or> n \<in> set ns))"
  by (auto simp: isLineMarked_def isMarked_def list_all_iff split: option.splits)

lemma column_marked:
  "set (nonFree (col l c)) \<subseteq> set called \<Longrightarrow> checkBingo c called"
proof -
  assume a: "set (nonFree (col l c)) \<subseteq> set called"
  have "isLineMarked called (colNums c l)"
    using a by (auto simp: isLineMarked_iff colNums_def nonFree_def)
  then have "list_ex (\<lambda>l. isLineMarked called (colNums c l)) BINGO"
    using in_BINGO[of l] by (auto simp: list_ex_iff)
  then show ?thesis by (simp add: checkBingo_def)
qed

text \<open>The numbers of a column of a deck card lie in the range of the column.\<close>

lemma nonFree_in_range:
  assumes "wf_card c" "n \<in> set (nonFree (col l c))"
  shows "fst (colRange l) \<le> n \<and> n \<le> snd (colRange l)"
proof -
  from assms(2) obtain r where r: "r < length (col l c)" "col l c ! r = n" "n \<noteq> 0"
    by (auto simp: nonFree_def in_set_conv_nth)
  with wf_card_length[OF assms(1), of l] have "r < 5" by simp
  from wf_card_cell[OF assms(1) this, of l] r show ?thesis
    by (auto simp: cellOK_def split: if_splits)
qed

text \<open>A line through a cell of another column, off the centre, is not marked by numbers of one column.\<close>

lemma other_cell_unmarked:
  assumes wf: "wf_card c" and r: "r < 5" and l': "l' \<noteq> l" "l' \<noteq> LN"
    and ns: "\<forall>n\<in>set ns. fst (colRange l) \<le> n \<and> n \<le> snd (colRange l)"
    and mem: "jsnth (col l' c) r \<in> set line"
  shows "\<not> isLineMarked ns line"
proof
  assume m: "isLineMarked ns line"
  have len: "r < length (col l' c)" using wf_card_length[OF wf, of l'] r by simp
  then have js: "jsnth (col l' c) r = Some (col l' c ! r)" by (simp add: jsnth_def)
  from wf_card_cell[OF wf r, of l'] l'
  have rng: "fst (colRange l') \<le> col l' c ! r \<and> col l' c ! r \<le> snd (colRange l')"
    by (simp add: cellOK_def)
  from m mem js have "col l' c ! r = 0 \<or> col l' c ! r \<in> set ns"
    by (auto simp: isLineMarked_iff)
  then show False
  proof
    assume "col l' c ! r = 0" with rng colRange_pos show False by blast
  next
    assume "col l' c ! r \<in> set ns"
    with ns have "fst (colRange l) \<le> col l' c ! r \<and> col l' c ! r \<le> snd (colRange l)" by blast
    with colRange_disjoint[of l l' "col l' c ! r"] l' rng show False by blast
  qed
qed

lemma two_letters: "\<exists>l'. (l' = a \<or> l' = b) \<and> l' \<noteq> l" if "a \<noteq> b" for a b l :: letter
  using that by metis

lemma one_column_only:
  assumes wf: "wf_card c"
    and ns: "\<forall>n\<in>set ns. fst (colRange l) \<le> n \<and> n \<le> snd (colRange l)"
    and l: "\<not> isLineMarked ns (colNums c l)"
  shows "\<not> checkBingo c ns"
proof -
  have cols: "\<not> isLineMarked ns (colNums c k)" for k
  proof (cases "k = l")
    case True with l show ?thesis by simp
  next
    case False
    have len: "0 < length (col k c)" using wf_card_length[OF wf, of k] by simp
    show ?thesis
    proof (cases "k = LN")
      case False
      have "jsnth (col k c) 0 \<in> set (colNums c k)"
        using len nth_mem[of 0 "col k c"] by (simp add: jsnth_def colNums_def)
      from other_cell_unmarked[OF wf _ \<open>k \<noteq> l\<close> False ns this] show ?thesis by simp
    next
      case True
      have c0: "cellOK c LN 0" by (rule wf_card_cell[OF wf]) simp
      have mem: "Some (col LN c ! 0) \<in> set (colNums c LN)"
        using len True nth_mem[of 0 "col LN c"] by (simp add: colNums_def)
      show ?thesis
      proof
        assume "isLineMarked ns (colNums c k)"
        with mem True have "col LN c ! 0 = 0 \<or> col LN c ! 0 \<in> set ns"
          by (auto simp: isLineMarked_iff)
        with c0 ns colRange_disjoint[of l LN "col LN c ! 0"] \<open>k \<noteq> l\<close> True show False
          by (auto simp: cellOK_def)
      qed
    qed
  qed
  have rows: "\<not> isLineMarked ns (rowNums c r)" if "r < 5" for r
  proof -
    obtain l' where l': "l' = LB \<or> l' = LI" "l' \<noteq> l" using two_letters[of LB LI l] by auto
    then have "l' \<noteq> LN" by auto
    have "jsnth (col l' c) r \<in> set (rowNums c r)" using l'(1) by (auto simp: rowNums_def BINGO_def)
    from other_cell_unmarked[OF wf that l'(2) \<open>l' \<noteq> LN\<close> ns this] show ?thesis .
  qed
  have d1: "\<not> isLineMarked ns (diag1 c)"
  proof (cases "l = LB")
    case True
    have "jsnth (col LI c) 1 \<in> set (diag1 c)" by (simp add: diag1_def BINGO_def)
    from other_cell_unmarked[OF wf _ _ _ ns this] True show ?thesis by simp
  next
    case False
    have "jsnth (col LB c) 0 \<in> set (diag1 c)" by (simp add: diag1_def BINGO_def)
    from other_cell_unmarked[OF wf _ _ _ ns this] False show ?thesis by simp
  qed
  have d2: "\<not> isLineMarked ns (diag2 c)"
  proof (cases "l = LO")
    case True
    have "jsnth (col LG c) 1 \<in> set (diag2 c)" by (simp add: diag2_def BINGO_def)
    from other_cell_unmarked[OF wf _ _ _ ns this] True show ?thesis by simp
  next
    case False
    have "jsnth (col LO c) 0 \<in> set (diag2 c)" by (simp add: diag2_def BINGO_def)
    from other_cell_unmarked[OF wf _ _ _ ns this] False show ?thesis by simp
  qed
  show ?thesis
    using cols rows d1 d2 by (auto simp: checkBingo_def list_ex_iff)
qed


section \<open>The cards the generator makes\<close>

text \<open>
  Whenever \<^verbatim>\<open>generateBingoCard\<close> returns, the card has 25 cells and, formatted, is a card
  of the deck in the sense of \<open>wf_card\<close>; the first card of the examples is one it
  returns.
\<close>

lemma pick5_result:
  assumes "pick5 lo hi ds nums = Some (res, rest)" "length nums \<le> 5" "lo \<le> hi"
    "\<forall>n\<in>set nums. lo \<le> n \<and> n \<le> hi"
  shows "length res = 5 \<and> (\<forall>n\<in>set res. lo \<le> n \<and> n \<le> hi)"
  using assms
proof (induction ds arbitrary: nums)
  case Nil
  then show ?case by (auto split: if_splits)
next
  case (Cons d ds)
  let ?n = "int (d mod nat (hi - lo + 1)) + lo"
  have rng: "lo \<le> ?n \<and> ?n \<le> hi"
  proof -
    from \<open>lo \<le> hi\<close> have "0 < nat (hi - lo + 1)" by simp
    then have "d mod nat (hi - lo + 1) < nat (hi - lo + 1)" by simp
    then show ?thesis by linarith
  qed
  show ?case
  proof (cases "length nums < 5")
    case False
    with Cons.prems show ?thesis by auto
  next
    case True
    show ?thesis
    proof (cases "?n \<in> set nums")
      case True
      with \<open>length nums < 5\<close> Cons.prems(1) have "pick5 lo hi ds nums = Some (res, rest)"
        by (simp add: Let_def)
      from Cons.IH[OF this Cons.prems(2,3,4)] show ?thesis .
    next
      case False
      with \<open>length nums < 5\<close> Cons.prems(1) have p: "pick5 lo hi ds (nums @ [?n]) = Some (res, rest)"
        by (simp add: Let_def)
      have "length (nums @ [?n]) \<le> 5" using \<open>length nums < 5\<close> by simp
      moreover have "\<forall>n\<in>set (nums @ [?n]). lo \<le> n \<and> n \<le> hi"
        using Cons.prems(4) rng by auto
      ultimately show ?thesis using Cons.IH[OF p _ Cons.prems(3)] by blast
    qed
  qed
qed

lemma length5: "length xs = 5 \<Longrightarrow> \<exists>a b c d e. xs = [a, b, c, d, e]"
  by (auto simp: length_Suc_conv numeral_eq_Suc)

lemma generated_card_wf:
  assumes "generateBingoCard ds = Some d"
  shows "length d = 25 \<and> wf_card (formatCardForClient \<lparr>card_id = i, data = d, takenBy = h\<rparr>)"
proof -
  from assms obtain b ds1 i' ds2 n ds3 g ds4 o5 ds5 where
    p: "pick5 1 15 ds [] = Some (b, ds1)" "pick5 16 30 ds1 [] = Some (i', ds2)"
       "pick5 31 45 ds2 [] = Some (n, ds3)" "pick5 46 60 ds3 [] = Some (g, ds4)"
       "pick5 61 75 ds4 [] = Some (o5, ds5)"
    and d: "d = (map Num (b @ i' @ n @ g @ o5))[12 := Num 0]"
    by (auto simp: generateBingoCard_def split: option.splits)
  from pick5_result[OF p(1)] have b: "length b = 5" "\<forall>x\<in>set b. 1 \<le> x \<and> x \<le> 15" by auto
  from pick5_result[OF p(2)] have i: "length i' = 5" "\<forall>x\<in>set i'. 16 \<le> x \<and> x \<le> 30" by auto
  from pick5_result[OF p(3)] have n: "length n = 5" "\<forall>x\<in>set n. 31 \<le> x \<and> x \<le> 45" by auto
  from pick5_result[OF p(4)] have g: "length g = 5" "\<forall>x\<in>set g. 46 \<le> x \<and> x \<le> 60" by auto
  from pick5_result[OF p(5)] have o: "length o5 = 5" "\<forall>x\<in>set o5. 61 \<le> x \<and> x \<le> 75" by auto
  from length5[OF b(1)] obtain b0 b1 b2 b3 b4 where bl: "b = [b0, b1, b2, b3, b4]" by blast
  from length5[OF i(1)] obtain i0 i1 i2 i3 i4 where il: "i' = [i0, i1, i2, i3, i4]" by blast
  from length5[OF n(1)] obtain n0 n1 n2 n3 n4 where nl: "n = [n0, n1, n2, n3, n4]" by blast
  from length5[OF g(1)] obtain g0 g1 g2 g3 g4 where gl: "g = [g0, g1, g2, g3, g4]" by blast
  from length5[OF o(1)] obtain o0 o1 o2 o3 o4 where ol: "o5 = [o0, o1, o2, o3, o4]" by blast
  have len: "length d = 25" by (simp add: d b i n g o)
  have f: "formatCardForClient \<lparr>card_id = i, data = d, takenBy = h\<rparr>
     = \<lparr>col_B = b, col_I = i', col_N = [n0, n1, 0, n3, n4], col_G = g, col_O = o5\<rparr>"
    by (simp add: formatCardForClient_def d bl il nl gl ol slice_def sliceToNums_def)
  have "wf_card \<lparr>col_B = b, col_I = i', col_N = [n0, n1, 0, n3, n4], col_G = g, col_O = o5\<rparr>"
    using b(2) i(2) n(2) g(2) o(2)
    by (simp add: wf_card_def BINGO_def upt5 cellOK_def bl il nl gl ol)
  with f len show ?thesis by simp
qed

lemma exData1_generated: "generateBingoCard [0, 1, 2, 2, 3, 4, 0, 1, 2, 3, 4, 0, 1, 2, 3, 4, 0, 1, 2, 3, 4, 0, 1, 2, 3, 4] = Some exData1"
  by code_simp


section \<open>The winning pattern\<close>

lemma pattern_iff: "(extractWinningPattern c ns \<noteq> None) = checkBingo c ns"
  unfolding extractWinningPattern_def checkBingo_def
  by (simp add: upt5 BINGO_def split: option.splits)

lemma findWinning_Some:
  "findWinning cs ns = Inr (Some (c, pat)) \<Longrightarrow>
     checkBingo c ns \<and> pat = extractWinningPattern c ns \<and> Formatted c \<in> set cs"
  by (induction cs ns rule: findWinning.induct) (auto split: if_splits)

lemma claim_bingo_win:
  assumes "claim_bingo ws roomId ph s = Inr (s', out)" and "(w, BingoWin pw wc pat) \<in> set out"
  shows "\<exists>r player. map_of (rooms s) roomId = Some r \<and>
           find (\<lambda>p. ws_phone (sockets s p) = Some ph) (players r) = Some player \<and>
           findWinning (ws_cards (sockets s player)) (numbersCalled r) = Inr (Some (wc, pat)) \<and>
           pw = ph"
  using assms
  by (auto simp: claim_bingo_def Let_def split: option.splits sum.splits if_splits prod.splits
      dest: updateRoomStatus_msgs)

text \<open>
  C10. For every formatted card and every list of called numbers,
  \<^verbatim>\<open>extractWinningPattern\<close> returns a pattern exactly when \<^verbatim>\<open>checkBingo\<close> returns true, and
  \<^verbatim>\<open>null\<close> exactly when it returns false; so every \<^verbatim>\<open>bingo_win\<close> message that
  \<^verbatim>\<open>claim_bingo\<close> sends carries a pattern that is not \<^verbatim>\<open>null\<close>.
\<close>

theorem pattern_exactly_when_bingo:
  "(extractWinningPattern c ns \<noteq> None) = checkBingo c ns \<and>
   (extractWinningPattern c ns = None) = (\<not> checkBingo c ns) \<and>
   (claim_bingo ws roomId ph s = Inr (s', out) \<longrightarrow> (w, BingoWin pw wc pat) \<in> set out \<longrightarrow>
      pat \<noteq> None)"
proof -
  have a: "(extractWinningPattern c ns \<noteq> None) = checkBingo c ns"
    by (rule pattern_iff)
  have b: "(extractWinningPattern c ns = None) = (\<not> checkBingo c ns)"
    using pattern_iff[of c ns] by blast
  have d: "pat \<noteq> None"
    if "claim_bingo ws roomId ph s = Inr (s', out)" "(w, BingoWin pw wc pat) \<in> set out"
  proof -
    from claim_bingo_win[OF that] obtain r :: room and player where
      "findWinning (ws_cards (sockets s player)) (numbersCalled r) = Inr (Some (wc, pat))"
      by blast
    from findWinning_Some[OF this] show ?thesis
      using pattern_iff[of wc "numbersCalled r"] by simp
  qed
  from a b d show ?thesis by blast
qed

theorem pattern_exactly_when_bingo_witness:
  "checkBingo exCard1 [1, 6, 2, 7, 3, 8, 4, 9, 5, 10] \<and>
   extractWinningPattern exCard1 [1, 6, 2, 7, 3, 8, 4, 9, 5, 10] \<noteq> None \<and>
   \<not> checkBingo exCard1 [1, 2] \<and> extractWinningPattern exCard1 [1, 2] = None \<and>
   \<not> isl (claim_bingo 0 ''room_10'' ''0911'' exGame) \<and>
   (1, BingoWin ''0911'' exCard1 (Some [(0, 0), (1, 0), (2, 0), (3, 0), (4, 0)]))
     \<in> set (snd (projr (claim_bingo 0 ''room_10'' ''0911'' exGame))) \<and>
   Some [(0, 0), (1, 0), (2, 0), (3, 0), (4::nat, 0::nat)] \<noteq> None"
proof -
  have c1: "checkBingo exCard1 [1, 6, 2, 7, 3, 8, 4, 9, 5, 10]" by code_simp
  have c2: "\<not> checkBingo exCard1 [1, 2]" by code_simp
  have ok: "\<not> isl (claim_bingo 0 ''room_10'' ''0911'' exGame)" by code_simp
  have m: "(1, BingoWin ''0911'' exCard1 (Some [(0, 0), (1, 0), (2, 0), (3, 0), (4, 0)]))
     \<in> set (snd (projr (claim_bingo 0 ''room_10'' ''0911'' exGame)))" by code_simp
  from ok obtain s' out where eq: "claim_bingo 0 ''room_10'' ''0911'' exGame = Inr (s', out)"
    by (cases "claim_bingo 0 ''room_10'' ''0911'' exGame") auto
  with m have m': "(1, BingoWin ''0911'' exCard1 (Some [(0, 0), (1, 0), (2, 0), (3, 0), (4, 0)])) \<in> set out"
    by simp
  note t1 = pattern_exactly_when_bingo[of exCard1 "[1, 6, 2, 7, 3, 8, 4, 9, 5, 10]" 0 "''room_10''"
      "''0911''" exGame s' out 1 "''0911''" exCard1 "Some [(0, 0), (1, 0), (2, 0), (3, 0), (4, 0)]"]
  note t2 = pattern_exactly_when_bingo[of exCard1 "[1, 2]" 0 "''room_10''"
      "''0911''" exGame s' out 1 "''0911''" exCard1 "Some [(0, 0), (1, 0), (2, 0), (3, 0), (4, 0)]"]
  from t1 t2 c1 c2 ok m eq m' show ?thesis by blast
qed

section \<open>A called column wins\<close>

text \<open>
  C5. For every card and every column of it: when the called numbers contain all the
  numbers of the column that are not the free cell, \<^verbatim>\<open>checkBingo\<close> returns true; and for
  a card of the deck, when the called numbers are exactly those numbers, \<^verbatim>\<open>checkBingo\<close>
  returns false once any one of them is taken away.
\<close>

theorem column_wins:
  "(set (nonFree (col l c)) \<subseteq> set called \<longrightarrow> checkBingo c called) \<and>
   (wf_card c \<longrightarrow> set called = set (nonFree (col l c)) \<longrightarrow> x \<in> set called \<longrightarrow>
      \<not> checkBingo c (removeAll x called))"
proof -
  have b: "\<not> checkBingo c (removeAll x called)"
    if wf: "wf_card c" and eq: "set called = set (nonFree (col l c))" and x: "x \<in> set called"
  proof -
    have ns: "\<forall>n\<in>set (removeAll x called). fst (colRange l) \<le> n \<and> n \<le> snd (colRange l)"
      using nonFree_in_range[OF wf, of _ l] eq by auto
    from x eq have "x \<in> set (col l c)" "x \<noteq> 0" by (auto simp: nonFree_def)
    then have "\<not> isLineMarked (removeAll x called) (colNums c l)"
      by (auto simp: isLineMarked_iff colNums_def)
    from one_column_only[OF wf ns this] show ?thesis .
  qed
  from column_marked[of l c called] b show ?thesis by blast
qed


theorem column_wins_witness:
  "set (nonFree (col LB exCard1)) \<subseteq> set [5, 4, 3, 2, 1] \<and> checkBingo exCard1 [5, 4, 3, 2, 1] \<and>
   wf_card exCard1 \<and> set [5, 4, 3, 2, 1] = set (nonFree (col LB exCard1)) \<and>
   3 \<in> set [5, 4, 3, 2, 1::int] \<and> \<not> checkBingo exCard1 (removeAll 3 [5, 4, 3, 2, 1]) \<and>
   set [31, 32, 34, 35] = set (nonFree (col LN exCard1)) \<and> checkBingo exCard1 [31, 32, 34, 35] \<and>
   \<not> checkBingo exCard1 (removeAll 34 [31, 32, 34, 35])"
proof -
  have wf: "wf_card exCard1" by code_simp
  have b: "set [5, 4, 3, 2, 1] = set (nonFree (col LB exCard1))" by code_simp
  have n: "set [31, 32, 34, 35] = set (nonFree (col LN exCard1))" by code_simp
  have x3: "3 \<in> set [5, 4, 3, 2, 1::int]" and x34: "34 \<in> set [31, 32, 34, 35::int]" by simp_all
  from column_wins[of LB exCard1 "[5, 4, 3, 2, 1]" 3] wf b x3
  have b1: "checkBingo exCard1 [5, 4, 3, 2, 1]"
    and b2: "\<not> checkBingo exCard1 (removeAll 3 [5, 4, 3, 2, 1])" by blast+
  from column_wins[of LN exCard1 "[31, 32, 34, 35]" 34] wf n x34
  have n1: "checkBingo exCard1 [31, 32, 34, 35]"
    and n2: "\<not> checkBingo exCard1 (removeAll 34 [31, 32, 34, 35])" by blast+
  from wf b n x3 b1 b2 n1 n2 show ?thesis by blast
qed

section \<open>The jackpot\<close>





section \<open>Selecting a card\<close>

lemma formatCard_takenBy [simp]: "formatCardForClient (c\<lparr>takenBy := h\<rparr>) = formatCardForClient c"
  by (simp add: formatCardForClient_def)







section \<open>The cap of four cards\<close>

lemma filter_update_first_le:
  "length (filter Q (update_first P f xs)) \<le> Suc (length (filter Q xs))"
  by (induction xs) auto

lemma filter_update_first_other:
  "(\<And>x. \<not> Q (f x)) \<Longrightarrow> length (filter Q (update_first P f xs)) \<le> length (filter Q xs)"
  by (induction xs) auto

lemma heldBy_resetCards [simp]: "heldBy ph (r\<lparr>cards := resetCards cs\<rparr>) = 0"
  by (simp add: heldBy_def resetCards_def)

lemma heldBy_cong: "cards r' = cards r \<Longrightarrow> heldBy ph r' = heldBy ph r"
  by (simp add: heldBy_def)

lemma heldBy_select:
  assumes "heldBy ph r \<le> 4" "heldBy ph' r < 4"
  shows "heldBy ph (r\<lparr>cards := update_first P (\<lambda>c. c\<lparr>takenBy := Some ph'\<rparr>) (cards r), playerCards := pc\<rparr>) \<le> 4"
proof (cases "ph' = ph")
  case True
  with assms(2) filter_update_first_le[of "\<lambda>c. takenBy c = Some ph" P "\<lambda>c. c\<lparr>takenBy := Some ph'\<rparr>" "cards r"]
  show ?thesis by (simp add: heldBy_def)
next
  case False
  with assms(1) filter_update_first_other[of "\<lambda>c. takenBy c = Some ph" "\<lambda>c. c\<lparr>takenBy := Some ph'\<rparr>" P "cards r"]
  show ?thesis by (simp add: heldBy_def)
qed

lemma select_card_cap:
  assumes "map_of (rooms s) rid = Some r" "heldBy ph r \<le> 4"
  shows "\<exists>r'. map_of (rooms (fst (select_card ws roomId cardId ph' s))) rid = Some r' \<and> heldBy ph r' \<le> 4"
  using assms heldBy_select[of ph _ ph']
  by (auto simp: select_card_def Let_def map_of_setRoom heldBy_def[of ph'] split: option.splits)

lemma join_room_cap:
  assumes "map_of (rooms s) rid = Some r" "heldBy ph r \<le> 4"
  shows "\<exists>r'. map_of (rooms (fst (join_room ws roomId ph' s))) rid = Some r' \<and> heldBy ph r' \<le> 4"
  using assms
  by (auto simp: join_room_def Let_def map_of_setRoom heldBy_def split: option.splits)

lemma claim_bingo_cap:
  assumes "map_of (rooms s) rid = Some r" "heldBy ph r \<le> 4" "claim_bingo ws roomId ph' s = Inr (s', out)"
  shows "\<exists>r'. map_of (rooms s') rid = Some r' \<and> heldBy ph r' \<le> 4"
  using assms
  by (auto simp: claim_bingo_def Let_def map_of_setRoom heldBy_def split: option.splits sum.splits if_splits)

lemma startRoomCountdown_cap:
  assumes "map_of (rooms s) rid = Some r" "heldBy ph r \<le> 4"
  shows "\<exists>r'. map_of (rooms (fst (startRoomCountdown roomId s))) rid = Some r' \<and> heldBy ph r' \<le> 4"
  using assms
  by (auto simp: startRoomCountdown_def Let_def map_of_setRoom heldBy_def sendReview_frame split: option.splits)

lemma start_game_rest_cap:
  assumes "map_of (rooms s) rid = Some r" "heldBy ph r \<le> 4" "map_of (rooms s) roomId = Some r0"
  shows "\<exists>r'. map_of (rooms (fst (start_game_rest ws roomId ph' r0 s))) rid = Some r' \<and> heldBy ph r' \<le> 4"
proof -
  let ?s1 = "setRoom roomId (r0\<lparr>playerCards := (playerCards r0)(ph' \<mapsto> map card_id (filter (\<lambda>c. takenBy c = Some ph') (cards r0)))\<rparr>)
     (s\<lparr>sockets := (sockets s)(ws := (sockets s ws)\<lparr>ws_cards := map (\<lambda>c. Formatted (formatCardForClient c)) (filter (\<lambda>c. takenBy c = Some ph') (cards r0))\<rparr>)\<rparr>)"
  have 1: "\<exists>r'. map_of (rooms ?s1) rid = Some r' \<and> heldBy ph r' \<le> 4"
    using assms by (auto simp: map_of_setRoom heldBy_def)
  then obtain r1 where r1: "map_of (rooms ?s1) rid = Some r1" "heldBy ph r1 \<le> 4" by blast
  from startRoomCountdown_cap[OF r1, of roomId] 1
  show ?thesis
    by (auto simp: start_game_rest_def Let_def case_prod_beta)
qed

lemma start_game_cap:
  assumes "map_of (rooms s) rid = Some r" "heldBy ph r \<le> 4"
  shows "\<exists>r'. map_of (rooms (fst (start_game ws roomId ph' s))) rid = Some r' \<and> heldBy ph r' \<le> 4"
proof (cases "map_of (rooms s) roomId")
  case None
  with assms show ?thesis by (simp add: start_game_def)
next
  case (Some r0)
  have a: "\<exists>r'. map_of (rooms (fst (start_game_rest ws roomId ph' r0 (s\<lparr>db_players := d\<rparr>)))) rid = Some r' \<and> heldBy ph r' \<le> 4" for d
    by (rule start_game_rest_cap[where r=r]) (use assms Some in simp_all)
  have b: "\<exists>r'. map_of (rooms (fst (start_game_rest ws roomId ph' r0 s))) rid = Some r' \<and> heldBy ph r' \<le> 4"
    by (rule start_game_rest_cap[OF assms Some])
  show ?thesis
    using assms Some a b
    by (auto simp: start_game_def Let_def case_prod_beta split: option.splits)
qed

lemma startGame_cap:
  assumes "map_of (rooms s) rid = Some r" "heldBy ph r \<le> 4"
  shows "\<exists>r'. map_of (rooms (startGame roomId s)) rid = Some r' \<and> heldBy ph r' \<le> 4"
  using assms
  by (auto simp: startGame_def Let_def map_of_setRoom heldBy_def split: option.splits)

lemma countdownTick_cap:
  assumes "map_of (rooms s) rid = Some r" "heldBy ph r \<le> 4"
  shows "\<exists>r'. map_of (rooms (fst (countdownTick h roomId t s))) rid = Some r' \<and> heldBy ph r' \<le> 4"
proof (cases "map_of (rooms s) roomId")
  case None
  with assms show ?thesis by (simp add: countdownTick_def)
next
  case (Some r0)
  show ?thesis
  proof (cases "t - 1 < 0")
    case False
    with assms Some show ?thesis
      by (auto simp: countdownTick_def Let_def map_of_setRoom heldBy_def)
  next
    case True
    let ?s3 = "setRoom roomId (r0\<lparr>countdown := None, currentCountdown := 60, cards := resetCards (cards r0)\<rparr>)
        (clearInterval (countdown r0) (s\<lparr>timers := (timers s)(h \<mapsto> CountdownTimer roomId (t - 1))\<rparr>))"
    have "\<exists>r1. map_of (rooms ?s3) rid = Some r1 \<and> heldBy ph r1 \<le> 4"
      using assms Some by (auto simp: map_of_setRoom)
    then obtain r1 where "map_of (rooms ?s3) rid = Some r1" "heldBy ph r1 \<le> 4" by blast
    from startGame_cap[OF this, of roomId] True Some show ?thesis
      by (simp add: countdownTick_def Let_def)
  qed
qed

lemma gameTick_cap:
  assumes "map_of (rooms s) rid = Some r" "heldBy ph r \<le> 4"
  shows "\<exists>r'. map_of (rooms (fst (gameTick h roomId av rnd s))) rid = Some r' \<and> heldBy ph r' \<le> 4"
  using assms
  by (auto simp: gameTick_def Let_def map_of_setRoom heldBy_def[of _ "_\<lparr>numbersCalled := _\<rparr>"] heldBy_def[of ph r] split: option.splits)

lemma step_cap:
  assumes "map_of (rooms s) rid = Some r" "heldBy ph r \<le> 4"
  shows "\<exists>r'. map_of (rooms (fst (step e s))) rid = Some r' \<and> heldBy ph r' \<le> 4"
proof (cases e)
  case Connect with assms show ?thesis by auto
next
  case (Close w) with assms show ?thesis by auto
next
  case (JoinRoom w roomId p) with join_room_cap[OF assms] show ?thesis by simp
next
  case (SelectCard w roomId cid p) with select_card_cap[OF assms] show ?thesis by simp
next
  case (ClaimBingo w roomId p)
  show ?thesis
  proof (cases "claim_bingo w roomId p s")
    case (Inl e') with ClaimBingo assms show ?thesis by auto
  next
    case (Inr res)
    obtain s' out where "res = (s', out)" by (cases res)
    with claim_bingo_cap[OF assms, of w roomId p s' out] Inr ClaimBingo show ?thesis by simp
  qed
next
  case (StartGame w roomId p) with start_game_cap[OF assms] show ?thesis by simp
next
  case (TimerFire h rnd)
  with countdownTick_cap[OF assms] gameTick_cap[OF assms] assms show ?thesis
    by (auto split: option.splits timer.splits)
qed

text \<open>
  C3. For every room and every phone that holds at most four cards of the room: after
  any sequence of events (\<^verbatim>\<open>select_card\<close> messages of any socket for any phone, and every
  other message and timer of the model; the code has no message that gives a card
  back) the phone holds at most four cards of the room.
\<close>

theorem four_card_cap:
  assumes "map_of (rooms s) rid = Some r" "heldBy ph r \<le> 4"
  shows "\<exists>r'. map_of (rooms (run es s)) rid = Some r' \<and> heldBy ph r' \<le> 4"
  using assms
proof (induction es arbitrary: s r)
  case Nil
  then show ?case by simp
next
  case (Cons e es)
  from step_cap[OF Cons.prems, of e] obtain r1 where
    "map_of (rooms (fst (step e s))) rid = Some r1" "heldBy ph r1 \<le> 4" by blast
  from Cons.IH[OF this] show ?case by simp
qed


theorem four_card_cap_witness:
  "map_of (rooms exLobby) ''room_10'' = Some (loadRoom (exDeck @ exDeck @ [exData1]) 10) \<and>
   heldBy ''0911'' (loadRoom (exDeck @ exDeck @ [exData1]) 10) \<le> 4 \<and>
   (\<exists>r'. map_of (rooms (run exFiveSelects exLobby)) ''room_10'' = Some r' \<and> heldBy ''0911'' r' \<le> 4) \<and>
   map (\<lambda>(k, r). (k, heldBy ''0911'' r)) (rooms (run exFiveSelects exLobby))
     = [(''room_10'', 4), (''room_20'', 0), (''room_50'', 0), (''room_100'', 0)]"
proof -
  have r: "map_of (rooms exLobby) ''room_10'' = Some (loadRoom (exDeck @ exDeck @ [exData1]) 10)"
    by (simp add: exLobby_def initState_def)
  have h: "heldBy ''0911'' (loadRoom (exDeck @ exDeck @ [exData1]) 10) \<le> 4"
    by code_simp
  have e: "map (\<lambda>(k, r). (k, heldBy ''0911'' r)) (rooms (run exFiveSelects exLobby))
     = [(''room_10'', 4), (''room_20'', 0), (''room_50'', 0), (''room_100'', 0)]"
    by code_simp
  from four_card_cap[OF r h, of exFiveSelects] r h e show ?thesis by blast
qed

section \<open>The charge at the start of a game\<close>

lemma startRoomCountdown_starts:
  assumes "map_of (rooms s) roomId = Some r" "countdown r = None"
  shows "\<exists>r'. map_of (rooms (fst (startRoomCountdown roomId s))) roomId = Some r' \<and>
            countdown r' = Some (next_timer s) \<and>
            timers (fst (startRoomCountdown roomId s)) (next_timer s)
              = Some (CountdownTimer roomId (orElse (currentCountdown r) 60))"
  using assms
  by (simp add: startRoomCountdown_def Let_def sendReview_frame map_of_setRoom)

lemma start_game_rest_starts:
  assumes "map_of (rooms s) roomId = Some r" "\<not> gameStarted r" "countdown r = None"
  shows "\<exists>r'. map_of (rooms (fst (start_game_rest ws roomId ph r s))) roomId = Some r' \<and>
            countdown r' = Some (next_timer s) \<and>
            timers (fst (start_game_rest ws roomId ph r s)) (next_timer s)
              = Some (CountdownTimer roomId (orElse (currentCountdown r) 60))"
proof -
  let ?r1 = "r\<lparr>playerCards := (playerCards r)(ph \<mapsto> map card_id (filter (\<lambda>c. takenBy c = Some ph) (cards r)))\<rparr>"
  let ?s1 = "setRoom roomId ?r1
     (s\<lparr>sockets := (sockets s)(ws := (sockets s ws)\<lparr>ws_cards := map (\<lambda>c. Formatted (formatCardForClient c)) (filter (\<lambda>c. takenBy c = Some ph) (cards r))\<rparr>)\<rparr>)"
  have 1: "map_of (rooms ?s1) roomId = Some ?r1" by (simp add: map_of_setRoom)
  have 2: "countdown ?r1 = None" using assms by simp
  have 3: "start_game_rest ws roomId ph r s = (fst (startRoomCountdown roomId ?s1),
      (ws, ShowCards ''game'' roomId (map (\<lambda>c. Formatted (formatCardForClient c)) (filter (\<lambda>c. takenBy c = Some ph) (cards r))))
        # snd (startRoomCountdown roomId ?s1))"
    using assms by (simp add: start_game_rest_def Let_def case_prod_beta)
  from startRoomCountdown_starts[OF 1 2] show ?thesis
    unfolding 3 by simp
qed

text \<open>
  C6. For every \<^verbatim>\<open>start_game\<close> request of a phone that holds at least one card of the
  room and has a record in \<^verbatim>\<open>db.data.players\<close>: when the balance is at least the cost
  of the room, exactly the cost is taken from that balance, the new balance is sent
  first, and the rest of the handler, which starts the countdown of a room that is
  neither counting down nor playing, runs on the charged state; when the balance is
  below the cost, the handler answers with an error and nothing changes.
\<close>

theorem start_game_charges:
  assumes r: "map_of (rooms s) roomId = Some r"
    and held: "1 \<le> heldBy ph r"
    and u: "find (\<lambda>u. u_phone u = ph) (db_players s) = Some u"
  shows "(cost r \<le> balance u \<longrightarrow>
           (\<exists>s' out. start_game ws roomId ph s = (s', (ws, BalanceUpdate (balance u - cost r)) # out) \<and>
              (s', out) = start_game_rest ws roomId ph r
                 (s\<lparr>db_players := update_first (\<lambda>u. u_phone u = ph)
                                     (\<lambda>u. u\<lparr>balance := balance u - cost r\<rparr>) (db_players s)\<rparr>) \<and>
              db_players s' = update_first (\<lambda>u. u_phone u = ph)
                                (\<lambda>u. u\<lparr>balance := balance u - cost r\<rparr>) (db_players s) \<and>
              find (\<lambda>u. u_phone u = ph) (db_players s') = Some (u\<lparr>balance := balance u - cost r\<rparr>) \<and>
              (\<not> gameStarted r \<and> countdown r = None \<longrightarrow>
                 (\<exists>r'. map_of (rooms s') roomId = Some r' \<and> countdown r' = Some (next_timer s) \<and>
                    timers s' (next_timer s)
                      = Some (CountdownTimer roomId (orElse (currentCountdown r) 60))))))
       \<and> (balance u < cost r \<longrightarrow>
            start_game ws roomId ph s = (s, [(ws, ErrorMsg ''Insufficient balance to start game'')]))"
proof -
  let ?db = "update_first (\<lambda>u. u_phone u = ph) (\<lambda>u. u\<lparr>balance := balance u - cost r\<rparr>) (db_players s)"
  let ?s0 = "s\<lparr>db_players := ?db\<rparr>"
  let ?res = "start_game_rest ws roomId ph r ?s0"
  from held have ne: "filter (\<lambda>c. takenBy c = Some ph) (cards r) \<noteq> []"
    by (auto simp: heldBy_def)
  have low: "start_game ws roomId ph s = (s, [(ws, ErrorMsg ''Insufficient balance to start game'')])"
    if "balance u < cost r"
    using r ne u that by (simp add: start_game_def)
  have hi: "start_game ws roomId ph s = (fst ?res, (ws, BalanceUpdate (balance u - cost r)) # snd ?res)"
    if "cost r \<le> balance u"
    using r ne u that by (simp add: start_game_def Let_def case_prod_beta)
  have db: "db_players (fst ?res) = ?db" by simp
  have f: "find (\<lambda>u. u_phone u = ph) ?db = Some (u\<lparr>balance := balance u - cost r\<rparr>)"
    by (rule find_update_first[OF u]) (use u in \<open>auto simp: find_Some_iff\<close>)
  have cd: "\<exists>r'. map_of (rooms (fst ?res)) roomId = Some r' \<and> countdown r' = Some (next_timer s) \<and>
      timers (fst ?res) (next_timer s)
        = Some (CountdownTimer roomId (orElse (currentCountdown r) 60))"
    if "\<not> gameStarted r \<and> countdown r = None"
    using start_game_rest_starts[of ?s0 roomId r ws ph] r that by simp
  show ?thesis
  proof (intro conjI impI)
    assume c: "cost r \<le> balance u"
    show "\<exists>s' out. start_game ws roomId ph s = (s', (ws, BalanceUpdate (balance u - cost r)) # out) \<and>
              (s', out) = ?res \<and> db_players s' = ?db \<and>
              find (\<lambda>u. u_phone u = ph) (db_players s') = Some (u\<lparr>balance := balance u - cost r\<rparr>) \<and>
              (\<not> gameStarted r \<and> countdown r = None \<longrightarrow>
                 (\<exists>r'. map_of (rooms s') roomId = Some r' \<and> countdown r' = Some (next_timer s) \<and>
                    timers s' (next_timer s)
                      = Some (CountdownTimer roomId (orElse (currentCountdown r) 60))))"
      apply (rule exI[of _ "fst ?res"], rule exI[of _ "snd ?res"])
      using hi[OF c] db f cd by simp
  next
    assume "balance u < cost r" then show "start_game ws roomId ph s = (s, [(ws, ErrorMsg ''Insufficient balance to start game'')])"
      by (rule low)
  qed
qed

theorem start_game_charges_witness:
  "map_of (rooms exSelected) ''room_10'' = Some exSelectedRoom \<and>
   1 \<le> heldBy ''0911'' exSelectedRoom \<and>
   find (\<lambda>u. u_phone u = ''0911'') (db_players exSelected)
     = Some \<lparr>u_phone = ''0911'', username = ''Player_0911'', balance = 1000, wins = 0, gamesPlayed = 0\<rparr> \<and>
   cost exSelectedRoom = 10 \<and> \<not> gameStarted exSelectedRoom \<and> countdown exSelectedRoom = None \<and>
   (\<exists>s' out. start_game 0 ''room_10'' ''0911'' exSelected = (s', (0, BalanceUpdate 990) # out) \<and>
      find (\<lambda>u. u_phone u = ''0911'') (db_players s')
        = Some \<lparr>u_phone = ''0911'', username = ''Player_0911'', balance = 990, wins = 0, gamesPlayed = 0\<rparr> \<and>
      (\<exists>r'. map_of (rooms s') ''room_10'' = Some r' \<and> countdown r' = Some 0 \<and>
         timers s' 0 = Some (CountdownTimer ''room_10'' 60))) \<and>
   map_of (rooms exPoor) ''room_10'' = Some exSelectedRoom \<and>
   find (\<lambda>u. u_phone u = ''0911'') (db_players exPoor)
     = Some \<lparr>u_phone = ''0911'', username = ''Player_0911'', balance = 5, wins = 0, gamesPlayed = 0\<rparr> \<and>
   start_game 0 ''room_10'' ''0911'' exPoor
     = (exPoor, [(0, ErrorMsg ''Insufficient balance to start game'')])"
proof -
  let ?u = "\<lparr>u_phone = ''0911'', username = ''Player_0911'', balance = 1000, wins = 0, gamesPlayed = 0\<rparr>"
  let ?p = "\<lparr>u_phone = ''0911'', username = ''Player_0911'', balance = 5, wins = 0, gamesPlayed = 0\<rparr>"
  have r: "map_of (rooms exSelected) ''room_10'' = Some exSelectedRoom"
    by (simp add: exSelected_def)
  have h: "1 \<le> heldBy ''0911'' exSelectedRoom"
    by (simp add: heldBy_def exSelectedRoom_def)
  have u: "find (\<lambda>u. u_phone u = ''0911'') (db_players exSelected) = Some ?u"
    by (simp add: exSelected_def exUsers_def)
  have c: "cost exSelectedRoom = 10" "\<not> gameStarted exSelectedRoom" "countdown exSelectedRoom = None"
    "currentCountdown exSelectedRoom = 60"
    by (simp_all add: exSelectedRoom_def loadRoom_def)
  have n: "next_timer exSelected = 0" by (simp add: exSelected_def)
  have rp: "map_of (rooms exPoor) ''room_10'' = Some exSelectedRoom"
    by (simp add: exPoor_def exSelected_def)
  have up: "find (\<lambda>u. u_phone u = ''0911'') (db_players exPoor) = Some ?p"
    by (simp add: exPoor_def)
  from start_game_charges[OF r h u, of 0] c n
  have rich: "\<exists>s' out. start_game 0 ''room_10'' ''0911'' exSelected = (s', (0, BalanceUpdate 990) # out) \<and>
      find (\<lambda>u. u_phone u = ''0911'') (db_players s')
        = Some \<lparr>u_phone = ''0911'', username = ''Player_0911'', balance = 990, wins = 0, gamesPlayed = 0\<rparr> \<and>
      (\<exists>r'. map_of (rooms s') ''room_10'' = Some r' \<and> countdown r' = Some 0 \<and>
         timers s' 0 = Some (CountdownTimer ''room_10'' 60))"
    by (auto simp: orElse_def)
  from start_game_charges[OF rp h up, of 0] c
  have poor: "start_game 0 ''room_10'' ''0911'' exPoor
     = (exPoor, [(0, ErrorMsg ''Insufficient balance to start game'')])"
    by simp
  from r h u c rich rp up poor show ?thesis by blast
qed

section \<open>A start request during the countdown\<close>







section \<open>Two claims for one game\<close>








section \<open>The called numbers\<close>

lemma gameInv_iff:
  "gameInv s \<longleftrightarrow>
     (\<forall>h roomId avail. timers s h = Some (GameTimer roomId avail) \<longrightarrow>
        (\<exists>r. map_of (rooms s) roomId = Some r \<and> gameInterval r = Some h \<and> gameStarted r \<and>
           numbersOK (numbersCalled r @ avail))) \<and>
     (\<forall>k r. map_of (rooms s) k = Some r \<longrightarrow> numbersOK (numbersCalled r))"
proof -
  have a: "(\<forall>h. gameTimerOK s h) \<longleftrightarrow>
     (\<forall>h roomId avail. timers s h = Some (GameTimer roomId avail) \<longrightarrow>
        (\<exists>r. map_of (rooms s) roomId = Some r \<and> gameInterval r = Some h \<and> gameStarted r \<and>
           numbersOK (numbersCalled r @ avail)))"
  proof -
    have "gameTimerOK s h \<longleftrightarrow>
       (\<forall>roomId avail. timers s h = Some (GameTimer roomId avail) \<longrightarrow>
          (\<exists>r. map_of (rooms s) roomId = Some r \<and> gameInterval r = Some h \<and> gameStarted r \<and>
             numbersOK (numbersCalled r @ avail)))" for h
    proof (cases "timers s h")
      case None then show ?thesis by (simp add: gameTimerOK_def)
    next
      case (Some t)
      show ?thesis
      proof (cases t)
        case (CountdownTimer x y) with Some show ?thesis by (simp add: gameTimerOK_def)
      next
        case (GameTimer x y)
        with Some show ?thesis
          by (cases "map_of (rooms s) x") (simp_all add: gameTimerOK_def)
      qed
    qed
    then show ?thesis by simp
  qed
  have b: "list_all (roomNumbersOK s) (map fst (rooms s)) \<longleftrightarrow>
     (\<forall>k r. map_of (rooms s) k = Some r \<longrightarrow> numbersOK (numbersCalled r))"
  proof
    assume l: "list_all (roomNumbersOK s) (map fst (rooms s))"
    show "\<forall>k r. map_of (rooms s) k = Some r \<longrightarrow> numbersOK (numbersCalled r)"
    proof (intro allI impI)
      fix k r assume m: "map_of (rooms s) k = Some r"
      then have "k \<in> fst ` set (rooms s)" by (metis domI dom_map_of_conv_image_fst)
      with l have "roomNumbersOK s k" by (auto simp: list_all_iff)
      with m show "numbersOK (numbersCalled r)" by (simp add: roomNumbersOK_def)
    qed
  next
    assume "\<forall>k r. map_of (rooms s) k = Some r \<longrightarrow> numbersOK (numbersCalled r)"
    then show "list_all (roomNumbersOK s) (map fst (rooms s))"
      by (auto simp: list_all_iff roomNumbersOK_def split: option.splits)
  qed
  show ?thesis unfolding gameInv_def a b ..
qed

lemma framed_refl: "framed s s"
  by (simp add: framed_def sameGame_def option.rel_refl)

lemma sameGame_trans: "sameGame a b \<Longrightarrow> sameGame b c \<Longrightarrow> sameGame a c"
  by (simp add: sameGame_def)

lemma framed_trans: "framed s t \<Longrightarrow> framed t u \<Longrightarrow> framed s u"
  unfolding framed_def
proof (intro conjI allI impI)
  fix k
  assume a: "(\<forall>k. rel_option sameGame (map_of (rooms s) k) (map_of (rooms t) k)) \<and>
         (\<forall>h roomId avail. timers t h = Some (GameTimer roomId avail) \<longrightarrow> timers s h = Some (GameTimer roomId avail))"
    and b: "(\<forall>k. rel_option sameGame (map_of (rooms t) k) (map_of (rooms u) k)) \<and>
         (\<forall>h roomId avail. timers u h = Some (GameTimer roomId avail) \<longrightarrow> timers t h = Some (GameTimer roomId avail))"
  from a b have "rel_option sameGame (map_of (rooms s) k) (map_of (rooms t) k)"
    "rel_option sameGame (map_of (rooms t) k) (map_of (rooms u) k)" by blast+
  then show "rel_option sameGame (map_of (rooms s) k) (map_of (rooms u) k)"
    by (cases "map_of (rooms s) k"; cases "map_of (rooms t) k"; cases "map_of (rooms u) k")
       (auto intro: sameGame_trans)
next
  fix h roomId avail
  assume a: "(\<forall>k. rel_option sameGame (map_of (rooms s) k) (map_of (rooms t) k)) \<and>
         (\<forall>h roomId avail. timers t h = Some (GameTimer roomId avail) \<longrightarrow> timers s h = Some (GameTimer roomId avail))"
    and b: "(\<forall>k. rel_option sameGame (map_of (rooms t) k) (map_of (rooms u) k)) \<and>
         (\<forall>h roomId avail. timers u h = Some (GameTimer roomId avail) \<longrightarrow> timers t h = Some (GameTimer roomId avail))"
    and c: "timers u h = Some (GameTimer roomId avail)"
  then show "timers s h = Some (GameTimer roomId avail)" by blast
qed

lemma framed_inv:
  assumes f: "framed s s'" and i: "gameInv s"
  shows "gameInv s'"
  unfolding gameInv_iff
proof (intro conjI allI impI)
  fix h roomId avail
  assume "timers s' h = Some (GameTimer roomId avail)"
  with f have "timers s h = Some (GameTimer roomId avail)" by (simp add: framed_def)
  with i obtain r where r: "map_of (rooms s) roomId = Some r" "gameInterval r = Some h"
    "gameStarted r" "numbersOK (numbersCalled r @ avail)"
    unfolding gameInv_iff by blast
  from f have "rel_option sameGame (map_of (rooms s) roomId) (map_of (rooms s') roomId)"
    by (simp add: framed_def)
  with r(1) obtain r' where "map_of (rooms s') roomId = Some r'" "sameGame r r'"
    by (cases "map_of (rooms s') roomId") auto
  with r show "\<exists>r. map_of (rooms s') roomId = Some r \<and> gameInterval r = Some h \<and> gameStarted r \<and>
           numbersOK (numbersCalled r @ avail)"
    by (auto simp: sameGame_def)
next
  fix k r' assume m: "map_of (rooms s') k = Some r'"
  from f have "rel_option sameGame (map_of (rooms s) k) (map_of (rooms s') k)"
    by (simp add: framed_def)
  with m obtain r where "map_of (rooms s) k = Some r" "sameGame r r'"
    by (cases "map_of (rooms s) k") auto
  with i show "numbersOK (numbersCalled r')"
    unfolding gameInv_iff by (auto simp: sameGame_def)
qed

lemma framed_called:
  assumes "framed s s'" "map_of (rooms s) rid = Some r" "map_of (rooms s') rid = Some r'"
  shows "calledStep r r'"
proof -
  from assms(1) have "rel_option sameGame (map_of (rooms s) rid) (map_of (rooms s') rid)"
    by (simp add: framed_def)
  with assms(2,3) show ?thesis by (simp add: sameGame_def calledStep_def)
qed

text \<open>A way to show \<open>framed\<close>: one room replaced by a room of the same game, timers within.\<close>

lemma framedI:
  assumes "map_of (rooms s) roomId = Some r" "sameGame r r'"
    and "\<And>k. map_of (rooms s') k = (if k = roomId then Some r' else map_of (rooms s) k)"
    and "\<And>h x avail. timers s' h = Some (GameTimer x avail) \<Longrightarrow> timers s h = Some (GameTimer x avail)"
  shows "framed s s'"
  using assms by (auto simp: framed_def sameGame_def option.rel_refl)

lemma framed_same_rooms:
  assumes "rooms s' = rooms s"
    and "\<And>h x avail. timers s' h = Some (GameTimer x avail) \<Longrightarrow> timers s h = Some (GameTimer x avail)"
  shows "framed s s'"
  using assms by (auto simp: framed_def sameGame_def option.rel_refl)

lemma join_room_framed: "framed s (fst (join_room ws roomId ph s))"
proof (cases "map_of (rooms s) roomId")
  case None then show ?thesis by (simp add: join_room_def framed_refl)
next
  case (Some r)
  show ?thesis
    by (rule framedI[OF Some, of "r\<lparr>players := players r @ [ws]\<rparr>"])
       (simp_all add: join_room_def Some Let_def map_of_setRoom sameGame_def)
qed

lemma framed_setRoom:
  assumes "map_of (rooms s) roomId = Some r" "sameGame r r'" "rooms s0 = rooms s"
    and "\<And>h x avail. timers s0 h = Some (GameTimer x avail) \<Longrightarrow> timers s h = Some (GameTimer x avail)"
  shows "framed s (setRoom roomId r' s0)"
  by (rule framedI[OF assms(1,2)]) (simp_all add: map_of_setRoom setRoom_def update_conv' assms)

lemma select_card_state:
  assumes "map_of (rooms s) roomId = Some r"
  shows "fst (select_card ws roomId cardId ph s) = s \<or>
     (\<exists>cs pc ss. fst (select_card ws roomId cardId ph s)
         = setRoom roomId (r\<lparr>cards := cs, playerCards := pc\<rparr>) (s\<lparr>sockets := ss\<rparr>))"
  using assms by (auto simp: select_card_def Let_def split: option.splits)

lemma select_card_framed: "framed s (fst (select_card ws roomId cardId ph s))"
proof (cases "map_of (rooms s) roomId")
  case None then show ?thesis by (simp add: select_card_def framed_refl)
next
  case (Some r)
  from select_card_state[OF Some, of ws cardId ph] show ?thesis
  proof
    assume "fst (select_card ws roomId cardId ph s) = s"
    then show ?thesis by (simp add: framed_refl)
  next
    assume "\<exists>cs pc ss. fst (select_card ws roomId cardId ph s)
         = setRoom roomId (r\<lparr>cards := cs, playerCards := pc\<rparr>) (s\<lparr>sockets := ss\<rparr>)"
    then obtain cs pc ss where e: "fst (select_card ws roomId cardId ph s)
         = setRoom roomId (r\<lparr>cards := cs, playerCards := pc\<rparr>) (s\<lparr>sockets := ss\<rparr>)" by blast
    show ?thesis unfolding e
      by (rule framed_setRoom[OF Some]) (simp_all add: sameGame_def)
  qed
qed

lemma sendReview_framed: "framed s (fst (sendReview roomId cs ps s))"
  by (rule framed_same_rooms) (simp_all add: sendReview_frame)

lemma startRoomCountdown_framed: "framed s (fst (startRoomCountdown roomId s))"
proof (cases "map_of (rooms s) roomId")
  case None then show ?thesis by (simp add: startRoomCountdown_def framed_refl)
next
  case (Some r)
  show ?thesis
  proof (cases "countdown r = None")
    case False with Some show ?thesis by (auto simp add: startRoomCountdown_def framed_refl)
  next
    case True
    show ?thesis
      by (rule framedI[OF Some, of "r\<lparr>countdown := Some (next_timer s)\<rparr>"])
         (use True in \<open>auto simp add: startRoomCountdown_def Some Let_def map_of_setRoom sameGame_def
            sendReview_frame split: if_splits\<close>)
  qed
qed

lemma start_game_rest_framed:
  assumes "map_of (rooms s) roomId = Some r"
  shows "framed s (fst (start_game_rest ws roomId ph r s))"
proof -
  let ?r1 = "r\<lparr>playerCards := (playerCards r)(ph \<mapsto> map card_id (filter (\<lambda>c. takenBy c = Some ph) (cards r)))\<rparr>"
  let ?s1 = "setRoom roomId ?r1
     (s\<lparr>sockets := (sockets s)(ws := (sockets s ws)\<lparr>ws_cards := map (\<lambda>c. Formatted (formatCardForClient c)) (filter (\<lambda>c. takenBy c = Some ph) (cards r))\<rparr>)\<rparr>)"
  have 1: "framed s ?s1"
    by (rule framedI[OF assms, of ?r1]) (simp_all add: map_of_setRoom sameGame_def)
  have 2: "framed ?s1 (fst (startRoomCountdown roomId ?s1))" by (rule startRoomCountdown_framed)
  have "fst (start_game_rest ws roomId ph r s) = ?s1 \<or>
        fst (start_game_rest ws roomId ph r s) = fst (startRoomCountdown roomId ?s1)"
    by (simp add: start_game_rest_def Let_def case_prod_beta)
  with 1 framed_trans[OF 1 2] show ?thesis by auto
qed

lemma framed_db: "framed s (s\<lparr>db_players := d\<rparr>)"
  by (rule framed_same_rooms) simp_all

lemma start_game_framed: "framed s (fst (start_game ws roomId ph s))"
proof (cases "map_of (rooms s) roomId")
  case None then show ?thesis by (simp add: start_game_def framed_refl)
next
  case (Some r)
  have a: "framed s (fst (start_game_rest ws roomId ph r s))"
    by (rule start_game_rest_framed[OF Some])
  have b: "framed s (fst (start_game_rest ws roomId ph r (s\<lparr>db_players := d\<rparr>)))" for d
    by (rule framed_trans[OF framed_db[of s d] start_game_rest_framed]) (simp add: Some)
  show ?thesis
    using Some a b framed_refl[of s]
    by (auto simp: start_game_def Let_def case_prod_beta split: option.splits)
qed

lemma numbersOK_Nil [simp]: "numbersOK []"
  by (simp add: numbersOK_def)

lemma numbersOK_pool: "numbersOK ([] @ [1..75])"
  by (simp add: numbersOK_def list_all_iff)

lemma numbersOK_appendD: "numbersOK (xs @ ys) \<Longrightarrow> numbersOK xs"
  by (simp add: numbersOK_def)

lemma numbersOK_draw:
  assumes "i < length av" "numbersOK (called @ av)"
  shows "numbersOK ((called @ [av ! i]) @ take i av @ drop (Suc i) av)"
proof -
  have av: "av = take i av @ av ! i # drop (Suc i) av"
    by (rule id_take_nth_drop[OF assms(1)])
  from assms(2) have "numbersOK (called @ take i av @ av ! i # drop (Suc i) av)"
    using av by simp
  then show ?thesis
    by (auto simp: numbersOK_def list_all_iff)
qed

lemma afterWin_inv:
  assumes i: "gameInv s" and r: "map_of (rooms s) roomId = Some r"
  shows "gameInv (afterWin roomId ph r s)"
  unfolding gameInv_iff
proof (intro conjI allI impI)
  fix h x avail
  assume t: "timers (afterWin roomId ph r s) h = Some (GameTimer x avail)"
  then have t0: "timers s h = Some (GameTimer x avail)" and ne: "gameInterval r \<noteq> Some h"
    by (auto simp: afterWin_def timers_clearInterval split: if_splits)
  from i t0 obtain r0 where r0: "map_of (rooms s) x = Some r0" "gameInterval r0 = Some h"
    "gameStarted r0" "numbersOK (numbersCalled r0 @ avail)"
    unfolding gameInv_iff by blast
  with r ne have "x \<noteq> roomId" by auto
  with r0 show "\<exists>r'. map_of (rooms (afterWin roomId ph r s)) x = Some r' \<and> gameInterval r' = Some h \<and>
      gameStarted r' \<and> numbersOK (numbersCalled r' @ avail)"
    by (simp add: afterWin_def map_of_setRoom)
next
  fix k r' assume "map_of (rooms (afterWin roomId ph r s)) k = Some r'"
  with i show "numbersOK (numbersCalled r')"
    unfolding gameInv_iff by (auto simp: afterWin_def map_of_setRoom split: if_splits)
qed

lemma afterWin_called:
  assumes "map_of (rooms s) rid = Some r0" "map_of (rooms (afterWin roomId ph r s)) rid = Some r'"
  shows "calledStep r0 r'"
  using assms by (auto simp: afterWin_def map_of_setRoom calledStep_def split: if_splits)

lemma claim_bingo_state:
  assumes "claim_bingo ws roomId ph s = Inr (s', out)"
  shows "s' = s \<or> (\<exists>r. map_of (rooms s) roomId = Some r \<and> s' = afterWin roomId ph r s)"
  using assms
  by (auto simp: claim_bingo_def Let_def afterWin_def split: option.splits sum.splits if_splits)

lemma calledStep_refl: "calledStep r r"
  by (simp add: calledStep_def)

lemma startGame_inv:
  assumes i: "gameInv s"
  shows "gameInv (startGame roomId s)"
proof (cases "map_of (rooms s) roomId")
  case None with i show ?thesis by (simp add: startGame_def)
next
  case (Some r)
  show ?thesis
  proof (cases "gameStarted r")
    case True with Some i show ?thesis by (simp add: startGame_def)
  next
    case False
    let ?h = "next_timer s"
    let ?s' = "setRoom roomId (r\<lparr>gameStarted := True, numbersCalled := [], gameInterval := Some ?h\<rparr>)
        (s\<lparr>timers := (timers s)(?h \<mapsto> GameTimer roomId [1..75]), next_timer := Suc ?h\<rparr>)"
    have e: "startGame roomId s = ?s'" using Some False by (simp add: startGame_def Let_def)
    show ?thesis unfolding e gameInv_iff
    proof (intro conjI allI impI)
      fix h x avail
      assume t: "timers ?s' h = Some (GameTimer x avail)"
      show "\<exists>r'. map_of (rooms ?s') x = Some r' \<and> gameInterval r' = Some h \<and>
          gameStarted r' \<and> numbersOK (numbersCalled r' @ avail)"
      proof (cases "h = ?h")
        case True
        with t have "x = roomId" "avail = [1..75]" by simp_all
        with True numbersOK_pool show ?thesis by (simp add: map_of_setRoom)
      next
        case False
        with t have t0: "timers s h = Some (GameTimer x avail)" by simp
        from i t0 obtain r0 where r0: "map_of (rooms s) x = Some r0" "gameInterval r0 = Some h"
          "gameStarted r0" "numbersOK (numbersCalled r0 @ avail)"
          unfolding gameInv_iff by blast
        with Some \<open>\<not> gameStarted r\<close> have "x \<noteq> roomId" by auto
        with r0 show ?thesis by (simp add: map_of_setRoom)
      qed
    next
      fix k r' assume "map_of (rooms ?s') k = Some r'"
      with i show "numbersOK (numbersCalled r')"
        unfolding gameInv_iff by (auto simp: map_of_setRoom split: if_splits)
    qed
  qed
qed

lemma startGame_called:
  assumes "map_of (rooms s) rid = Some r0" "map_of (rooms (startGame roomId s)) rid = Some r'"
  shows "calledStep r0 r'"
  using assms
  by (auto simp: startGame_def Let_def map_of_setRoom calledStep_def split: option.splits if_splits)

lemma countdownTick_mid:
  assumes r: "map_of (rooms s) roomId = Some r"
  shows "\<exists>s3. framed s s3 \<and>
     (fst (countdownTick h roomId t s) = s3 \<or> fst (countdownTick h roomId t s) = startGame roomId s3)"
proof (cases "t - 1 < 0")
  case False
  let ?s1 = "s\<lparr>timers := (timers s)(h \<mapsto> CountdownTimer roomId (t - 1))\<rparr>"
  have "framed s (setRoom roomId (r\<lparr>currentCountdown := t\<rparr>) ?s1)"
    by (rule framed_setRoom[OF r]) (auto simp: sameGame_def split: if_splits)
  with False r show ?thesis by (auto simp: countdownTick_def Let_def)
next
  case True
  let ?s1 = "s\<lparr>timers := (timers s)(h \<mapsto> CountdownTimer roomId (t - 1))\<rparr>"
  let ?s3 = "setRoom roomId (r\<lparr>countdown := None, currentCountdown := 60, cards := resetCards (cards r)\<rparr>)
      (clearInterval (countdown r) ?s1)"
  have "framed s ?s3"
    by (rule framed_setRoom[OF r]) (auto simp: sameGame_def timers_clearInterval split: if_splits)
  with True r show ?thesis by (auto simp: countdownTick_def Let_def)
qed

lemma countdownTick_inv:
  assumes i: "gameInv s"
  shows "gameInv (fst (countdownTick h roomId t s))"
proof (cases "map_of (rooms s) roomId")
  case None with i show ?thesis by (simp add: countdownTick_def)
next
  case (Some r)
  from countdownTick_mid[OF Some, of h t] obtain s3 where f: "framed s s3" and
    e: "fst (countdownTick h roomId t s) = s3 \<or> fst (countdownTick h roomId t s) = startGame roomId s3"
    by blast
  from framed_inv[OF f i] startGame_inv[of s3 roomId] e show ?thesis by auto
qed

lemma countdownTick_called:
  assumes a: "map_of (rooms s) rid = Some r0"
    and b: "map_of (rooms (fst (countdownTick h roomId t s))) rid = Some r'"
  shows "calledStep r0 r'"
proof (cases "map_of (rooms s) roomId")
  case None with a b show ?thesis by (simp add: countdownTick_def calledStep_refl)
next
  case (Some r)
  from countdownTick_mid[OF Some, of h t] obtain s3 where f: "framed s s3" and
    e: "fst (countdownTick h roomId t s) = s3 \<or> fst (countdownTick h roomId t s) = startGame roomId s3"
    by blast
  from f a obtain r3 where r3: "map_of (rooms s3) rid = Some r3" "sameGame r0 r3"
    by (cases "map_of (rooms s3) rid") (auto simp: framed_def dest!: spec[of _ rid])
  from e show ?thesis
  proof
    assume "fst (countdownTick h roomId t s) = s3"
    with b r3 show ?thesis by (simp add: sameGame_def calledStep_def)
  next
    assume "fst (countdownTick h roomId t s) = startGame roomId s3"
    with b have "map_of (rooms (startGame roomId s3)) rid = Some r'" by simp
    from startGame_called[OF r3(1) this] r3(2) show ?thesis
      by (auto simp: sameGame_def calledStep_def)
  qed
qed

lemma gameTick_inv:
  assumes i: "gameInv s" and t: "timers s h = Some (GameTimer roomId av)"
  shows "gameInv (fst (gameTick h roomId av rnd s))"
proof -
  from i t obtain r where r: "map_of (rooms s) roomId = Some r" "gameInterval r = Some h"
    "gameStarted r" "numbersOK (numbersCalled r @ av)"
    unfolding gameInv_iff by blast
  show ?thesis
  proof (cases "av = [] \<or> players r = []")
    case True
    let ?s' = "setRoom roomId (r\<lparr>gameStarted := False, cards := resetCards (cards r)\<rparr>)
        (clearInterval (gameInterval r) s)"
    have e: "fst (gameTick h roomId av rnd s) = ?s'"
      using True r by (auto simp: gameTick_def Let_def)
    show ?thesis unfolding e gameInv_iff
    proof (intro conjI allI impI)
      fix h' x avail
      assume t': "timers ?s' h' = Some (GameTimer x avail)"
      then have t0: "timers s h' = Some (GameTimer x avail)" and ne: "h' \<noteq> h"
        using r(2) by (auto simp: timers_clearInterval split: if_splits)
      from i t0 obtain r0 where r0: "map_of (rooms s) x = Some r0" "gameInterval r0 = Some h'"
        "gameStarted r0" "numbersOK (numbersCalled r0 @ avail)"
        unfolding gameInv_iff by blast
      with r ne have "x \<noteq> roomId" by auto
      with r0 show "\<exists>r'. map_of (rooms ?s') x = Some r' \<and> gameInterval r' = Some h' \<and>
          gameStarted r' \<and> numbersOK (numbersCalled r' @ avail)"
        by (simp add: map_of_setRoom)
    next
      fix k r' assume "map_of (rooms ?s') k = Some r'"
      with i numbersOK_appendD[OF r(4)] show "numbersOK (numbersCalled r')"
        unfolding gameInv_iff by (auto simp: map_of_setRoom split: if_splits)
    qed
  next
    case False
    let ?i = "rnd mod length av"
    let ?rest = "take ?i av @ drop (Suc ?i) av"
    let ?called = "numbersCalled r @ [av ! ?i]"
    let ?s' = "setRoom roomId (r\<lparr>numbersCalled := ?called\<rparr>)
        (s\<lparr>timers := (timers s)(h \<mapsto> GameTimer roomId ?rest)\<rparr>)"
    have e: "fst (gameTick h roomId av rnd s) = ?s'"
      using False r by (auto simp: gameTick_def Let_def)
    from False have lt: "?i < length av" by simp
    have ok: "numbersOK (?called @ ?rest)" by (rule numbersOK_draw[OF lt r(4)])
    show ?thesis unfolding e gameInv_iff
    proof (intro conjI allI impI)
      fix h' x avail
      assume t': "timers ?s' h' = Some (GameTimer x avail)"
      show "\<exists>r'. map_of (rooms ?s') x = Some r' \<and> gameInterval r' = Some h' \<and>
          gameStarted r' \<and> numbersOK (numbersCalled r' @ avail)"
      proof (cases "h' = h")
        case True
        with t' have "x = roomId" "avail = ?rest" by simp_all
        with True r ok show ?thesis by (simp add: map_of_setRoom)
      next
        case False
        with t' have t0: "timers s h' = Some (GameTimer x avail)" by simp
        from i t0 obtain r0 where r0: "map_of (rooms s) x = Some r0" "gameInterval r0 = Some h'"
          "gameStarted r0" "numbersOK (numbersCalled r0 @ avail)"
          unfolding gameInv_iff by blast
        with r False have "x \<noteq> roomId" by auto
        with r0 show ?thesis by (simp add: map_of_setRoom)
      qed
    next
      fix k r' assume "map_of (rooms ?s') k = Some r'"
      with i numbersOK_appendD[OF ok] show "numbersOK (numbersCalled r')"
        unfolding gameInv_iff by (auto simp: map_of_setRoom split: if_splits)
    qed
  qed
qed

lemma gameTick_called:
  assumes i: "gameInv s" and t: "timers s h = Some (GameTimer roomId av)"
    and a: "map_of (rooms s) rid = Some r0"
    and b: "map_of (rooms (fst (gameTick h roomId av rnd s))) rid = Some r'"
  shows "calledStep r0 r'"
proof -
  from i t obtain r where r: "map_of (rooms s) roomId = Some r" "gameStarted r"
    unfolding gameInv_iff by blast
  with a b show ?thesis
    by (auto simp: gameTick_def Let_def map_of_setRoom calledStep_def split: if_splits)
qed

lemma step_inv:
  assumes i: "gameInv s"
  shows "gameInv (fst (step e s))"
proof (cases e)
  case Connect
  have "framed s (fst (step Connect s))" by (rule framed_same_rooms) simp_all
  from framed_inv[OF this i] Connect show ?thesis by simp
next
  case (Close w)
  have "framed s (fst (step (Close w) s))" by (rule framed_same_rooms) simp_all
  from framed_inv[OF this i] Close show ?thesis by simp
next
  case (JoinRoom w roomId p)
  with framed_inv[OF join_room_framed i] show ?thesis by simp
next
  case (SelectCard w roomId cid p)
  with framed_inv[OF select_card_framed i] show ?thesis by simp
next
  case (ClaimBingo w roomId p)
  show ?thesis
  proof (cases "claim_bingo w roomId p s")
    case (Inl e') with ClaimBingo i show ?thesis by simp
  next
    case (Inr res)
    obtain s' out where res: "res = (s', out)" by (cases res)
    from claim_bingo_state[of w roomId p s s' out] Inr res afterWin_inv[OF i] i
    have "gameInv s'" by auto
    with Inr res ClaimBingo show ?thesis by simp
  qed
next
  case (StartGame w roomId p)
  with framed_inv[OF start_game_framed i] show ?thesis by simp
next
  case (TimerFire h rnd)
  show ?thesis
  proof (cases "timers s h")
    case None with TimerFire i show ?thesis by simp
  next
    case (Some tm)
    show ?thesis
    proof (cases tm)
      case (CountdownTimer roomId t)
      with Some TimerFire countdownTick_inv[OF i] show ?thesis by simp
    next
      case (GameTimer roomId av)
      with Some TimerFire gameTick_inv[OF i] show ?thesis by simp
    qed
  qed
qed

lemma step_called:
  assumes i: "gameInv s" and a: "map_of (rooms s) rid = Some r"
    and b: "map_of (rooms (fst (step e s))) rid = Some r'"
  shows "calledStep r r'"
proof (cases e)
  case Connect with a b show ?thesis by (simp add: calledStep_refl)
next
  case (Close w) with a b show ?thesis by (simp add: calledStep_refl)
next
  case (JoinRoom w roomId p)
  with framed_called[OF join_room_framed a] b show ?thesis by simp
next
  case (SelectCard w roomId cid p)
  with framed_called[OF select_card_framed a] b show ?thesis by simp
next
  case (ClaimBingo w roomId p)
  show ?thesis
  proof (cases "claim_bingo w roomId p s")
    case (Inl e') with ClaimBingo a b show ?thesis by (simp add: calledStep_refl)
  next
    case (Inr res)
    obtain s' out where res: "res = (s', out)" by (cases res)
    with Inr ClaimBingo b have b': "map_of (rooms s') rid = Some r'" by simp
    from claim_bingo_state[of w roomId p s s' out] Inr res
    have "s' = s \<or> (\<exists>r1. s' = afterWin roomId p r1 s)" by auto
    with a b' afterWin_called[OF a] show ?thesis by (auto simp: calledStep_refl)
  qed
next
  case (StartGame w roomId p)
  with framed_called[OF start_game_framed a] b show ?thesis by simp
next
  case (TimerFire h rnd)
  show ?thesis
  proof (cases "timers s h")
    case None with TimerFire a b show ?thesis by (simp add: calledStep_refl)
  next
    case (Some tm)
    show ?thesis
    proof (cases tm)
      case (CountdownTimer roomId t)
      with Some TimerFire countdownTick_called[OF a] b show ?thesis by simp
    next
      case (GameTimer roomId av)
      with Some TimerFire gameTick_called[OF i _ a] b show ?thesis by simp
    qed
  qed
qed

lemma run_inv: "gameInv s \<Longrightarrow> gameInv (run es s)"
  by (induction es arbitrary: s) (simp_all add: step_inv)

lemma init_inv: "gameInv (initState deck users)"
  by (simp add: gameInv_def gameTimerOK_def initState_def roomNumbersOK_def loadRoom_def)


text \<open>
  C4. From any state that satisfies the invariant of the number caller, as the state at
  the start of the server does, after any sequence of events: in every room the called
  numbers are numbers of 1..75, no number is there twice, and one more event leaves
  them as they are, clears them, or adds one number, and it adds one only to a room
  whose game is started.
\<close>

theorem called_numbers_invariant:
  assumes "gameInv s"
  shows "gameInv (run es s) \<and>
     (\<forall>rid r. map_of (rooms (run es s)) rid = Some r \<longrightarrow>
        distinct (numbersCalled r) \<and> (\<forall>n\<in>set (numbersCalled r). 1 \<le> n \<and> n \<le> 75)) \<and>
     (\<forall>e rid r r'. map_of (rooms (run es s)) rid = Some r \<longrightarrow>
        map_of (rooms (fst (step e (run es s)))) rid = Some r' \<longrightarrow>
        numbersCalled r' = numbersCalled r \<or> numbersCalled r' = [] \<or>
        (gameStarted r \<and> (\<exists>n. numbersCalled r' = numbersCalled r @ [n])))"
proof -
  have i: "gameInv (run es s)" by (rule run_inv[OF assms])
  then have a: "\<forall>rid r. map_of (rooms (run es s)) rid = Some r \<longrightarrow>
        distinct (numbersCalled r) \<and> (\<forall>n\<in>set (numbersCalled r). 1 \<le> n \<and> n \<le> 75)"
    unfolding gameInv_iff by (auto simp: numbersOK_def list_all_iff)
  have b: "numbersCalled r' = numbersCalled r \<or> numbersCalled r' = [] \<or>
        (gameStarted r \<and> (\<exists>n. numbersCalled r' = numbersCalled r @ [n]))"
    if "map_of (rooms (run es s)) rid = Some r"
       "map_of (rooms (fst (step e (run es s)))) rid = Some r'" for e rid r r'
    using step_called[OF i that] by (simp add: calledStep_def)
  from i a b show ?thesis by blast
qed

theorem called_numbers_invariant_witness:
  "gameInv exGame \<and> gameInv (run exTwoDraws exGame) \<and>
   map (\<lambda>(k, r). (k, numbersCalled r)) (rooms (run exTwoDraws exGame))
     = [(''room_10'', [1, 6, 2, 7, 3, 8, 4, 9, 5, 10, 11, 17])] \<and>
   gameInv (initState exDeck exUsers) \<and> gameInv (run exFiveSelects (initState exDeck exUsers))"
proof -
  have n: "numbersOK ([1, 6, 2, 7, 3, 8, 4, 9, 5, 10] @ [11..75])" by code_simp
  have g: "gameInv exGame"
    unfolding gameInv_def
    using n numbersOK_appendD[OF n]
    by (auto simp: gameTimerOK_def exGame_def exGameRoom_def loadRoom_def roomNumbersOK_def)
  have e: "map (\<lambda>(k, r). (k, numbersCalled r)) (rooms (run exTwoDraws exGame))
     = [(''room_10'', [1, 6, 2, 7, 3, 8, 4, 9, 5, 10, 11, 17])]" by code_simp
  have i: "gameInv (initState exDeck exUsers)" by (rule init_inv)
  from called_numbers_invariant[OF g, of exTwoDraws] called_numbers_invariant[OF i, of exFiveSelects]
    g e i show ?thesis by blast
qed

section \<open>The end of a game\<close>

text \<open>
  C8 does not hold of the code. Both runs start from the state at the start of the
  server. After the successful claim of \<open>exClaimed\<close> the game is stopped and the called
  numbers are cleared, but the holders of the cards stay: card 2, selected during the
  game, is still held. After \<open>exExhausted\<close>, where the draw pool is empty, the number
  caller has stopped the game and cleared the holders, but the 75 called numbers stay;
  a claim of the first player is then still answered with a win.
\<close>

theorem game_end_resets_half:
  "map (\<lambda>(k, r). (k, gameStarted r, numbersCalled r, map takenBy (cards r)))
     (rooms (run exClaimed (initState exDeck exUsers)))
     = [(''room_10'', False, [], [None, Some ''0922'']), (''room_20'', False, [], [None, None]),
        (''room_50'', False, [], [None, None]), (''room_100'', False, [], [None, None])] \<and>
   map (\<lambda>(k, r). (k, gameStarted r, length (numbersCalled r), map takenBy (cards r)))
     (rooms (run exExhausted (initState exDeck exUsers)))
     = [(''room_10'', False, 75, [None, None]), (''room_20'', False, 0, [None, None]),
        (''room_50'', False, 0, [None, None]), (''room_100'', False, 0, [None, None])] \<and>
   (1, BingoWin ''0911'' exCard1 (Some [(0, 0), (1, 0), (2, 0), (3, 0), (4, 0)]))
     \<in> set (snd (step (ClaimBingo 0 ''room_10'' ''0911'') (run exExhausted (initState exDeck exUsers))))"
  by code_simp

end
